theory Spec2Isabelle
  imports Main "HOL-Library.Sublist"
begin

section \<open>Go library primitives used by the metadata commands\<close>

text \<open>
  Go strings are byte sequences; they are modelled as \<^typ>\<open>string\<close>. A byte slice
  that may be \<open>nil\<close> is a \<^typ>\<open>string option\<close>, with \<open>None\<close> for \<open>nil\<close>.
\<close>

text \<open>\<open>strings.HasPrefix(s, prefix)\<close>:
  \<open>len(s) >= len(prefix) && s[:len(prefix)] == prefix\<close>.\<close>

definition HasPrefix :: "string \<Rightarrow> string \<Rightarrow> bool" where
  "HasPrefix s pre = (length pre \<le> length s \<and> take (length pre) s = pre)"

text \<open>\<open>strings.SplitN(s, sep, n)\<close> for a one-byte separator and \<open>n \<ge> 0\<close>: at most
  \<open>n\<close> pieces, the last one holding the unsplit remainder; \<open>n = 0\<close> gives no piece.\<close>

fun SplitN :: "string \<Rightarrow> char \<Rightarrow> nat \<Rightarrow> string list" where
  "SplitN s sep 0 = []"
| "SplitN s sep (Suc 0) = [s]"
| "SplitN s sep (Suc (Suc n)) =
     (if sep \<in> set s
      then takeWhile (\<lambda>c. c \<noteq> sep) s # SplitN (drop 1 (dropWhile (\<lambda>c. c \<noteq> sep) s)) sep (Suc n)
      else [s])"

text \<open>\<open>len\<close> of a byte slice (\<open>nil\<close> has length 0) and \<open>bytes.Equal\<close> (a \<open>nil\<close>
  argument is equal to an empty slice).\<close>

definition bytes_of :: "string option \<Rightarrow> string" where
  "bytes_of v = (case v of None \<Rightarrow> [] | Some b \<Rightarrow> b)"

definition len_bytes :: "string option \<Rightarrow> nat" where
  "len_bytes v = length (bytes_of v)"

definition bytes_Equal :: "string option \<Rightarrow> string option \<Rightarrow> bool" where
  "bytes_Equal a b = (bytes_of a = bytes_of b)"

text \<open>Decimal formatting of an integer, as \<open>%d\<close> of \<open>fmt\<close> prints it.\<close>

function Itoa_nat :: "nat \<Rightarrow> string" where
  "Itoa_nat n =
     (if n < 10 then [''0123456789'' ! n]
      else Itoa_nat (n div 10) @ [''0123456789'' ! (n mod 10)])"
  by pat_completeness auto
termination
  by (relation "measure (\<lambda>n. n)") auto

declare Itoa_nat.simps [simp del]

definition Itoa :: "int \<Rightarrow> string" where
  "Itoa i = (if i < 0 then CHR ''-'' # Itoa_nat (nat (- i)) else Itoa_nat (nat i))"

section \<open>Errors\<close>

text \<open>
  The handlers abort by panicking with an error value: \<open>xerrorf\<close> raises a syntax
  (protocol) error, \<open>xuserErrorf\<close> a user error, \<open>xusercodeErrorf\<close> a user error
  with a response code, \<open>xcheckf\<close> a server error. Each is a branch \<open>Inl\<close> of the
  model's result.
\<close>

datatype error =
    SyntaxError string
  | UserError string
  | UserCodeError string string
  | ServerError string

section \<open>Stored annotations\<close>

text \<open>
  \<open>store.Annotation\<close>: the mailbox the annotation belongs to (0 for the account-global
  scope), the entry name, the text flag and the value. A table is the list of its rows
  in the order in which a query without index iterates them (by primary key); a new row
  gets the largest key and is last.
\<close>

record Annotation =
  MailboxID :: int
  Key :: string
  IsString :: bool
  Value :: "string option"

type_synonym table = "Annotation list"

section \<open>GETMETADATA: matching stored keys against the requested entry names\<close>

text \<open>The prefix a key must start with to lie below the entry name \<open>s\<close>:
  \<open>prefix := s; if s != "/" { prefix += "/" }\<close>.\<close>

definition entryPrefix :: "string \<Rightarrow> string" where
  "entryPrefix s = (if s \<noteq> ''/'' then s @ ''/'' else s)"

text \<open>
  The loop \<open>for s := range entryNames\<close> of the cases \<open>"1"\<close> and \<open>"INFINITY"\<close>. The
  set \<open>entryNames\<close> is given as the list of its members in the order the iteration
  visits them.
\<close>

fun matchNames :: "string \<Rightarrow> string \<Rightarrow> string list \<Rightarrow> bool" where
  "matchNames optDepth key [] = False"
| "matchNames optDepth key (s # ss) =
     (let pfx = entryPrefix s in
      if \<not> HasPrefix key pfx then matchNames optDepth key ss
      else if optDepth = ''INFINITY'' then True
      else
        (let suffix = drop (length pfx) key;
             t = SplitN suffix CHR ''/'' 2
         in if length t = 1 then True else matchNames optDepth key ss))"

text \<open>
  The \<open>switch optDepth\<close> of the row callback: \<open>Inr False\<close> where the callback returns
  early (the row is skipped), \<open>Inr True\<close> where it goes on to the size check, and the
  error of the default case.
\<close>

definition matchEntry :: "string \<Rightarrow> string list \<Rightarrow> string \<Rightarrow> error + bool" where
  "matchEntry optDepth entryNames key =
     (if optDepth = '''' \<or> optDepth = ''0'' then Inr (key \<in> set entryNames)
      else if optDepth = ''1'' \<or> optDepth = ''INFINITY'' then
        (if key \<in> set entryNames then Inr True
         else Inr (matchNames optDepth key entryNames))
      else Inl (ServerError ''missing case for depth''))"

section \<open>GETMETADATA: scanning the annotations of the scope\<close>

text \<open>
  \<open>q.ForEach(fn)\<close>: the callback runs on every row in order; an error (a panic or a
  returned error) ends the iteration. The variables the callback updates are threaded
  through as the state \<open>st\<close>.
\<close>

fun ForEach :: "'a list \<Rightarrow> ('a \<Rightarrow> 's \<Rightarrow> error + 's) \<Rightarrow> 's \<Rightarrow> error + 's" where
  "ForEach [] fn st = Inr st"
| "ForEach (a # as) fn st =
     (case fn a st of Inl e \<Rightarrow> Inl e | Inr st' \<Rightarrow> ForEach as fn st')"

text \<open>
  The row callback of \<open>cmdGetmetadata\<close>. Its state is the pair of \<open>annotations\<close>
  and \<open>longentries\<close>; \<open>optMaxSize\<close> is -1 when no \<open>MAXSIZE\<close> option was given.
\<close>

definition getmetadataRow ::
  "int \<Rightarrow> string \<Rightarrow> string list \<Rightarrow> Annotation \<Rightarrow> Annotation list \<times> int
     \<Rightarrow> error + Annotation list \<times> int" where
  "getmetadataRow optMaxSize optDepth entryNames a st =
     (case matchEntry optDepth entryNames (Key a) of
        Inl e \<Rightarrow> Inl e
      | Inr False \<Rightarrow> Inr st
      | Inr True \<Rightarrow>
          (case st of (annotations, longentries) \<Rightarrow>
             if 0 \<le> optMaxSize \<and> optMaxSize < int (len_bytes (Value a))
             then Inr (annotations, max longentries (int (len_bytes (Value a))))
             else Inr (annotations @ [a], longentries)))"

text \<open>
  The mailbox a command is about: the empty name is the account-global scope with
  \<open>MailboxID\<close> 0, any other name is looked up with \<open>c.xmailbox\<close>. The lookup reads the
  mailbox table, which is not part of this model, so it is the parameter \<open>xmailbox\<close>,
  giving the ID of the mailbox (never 0) or the error it raises.
\<close>

definition scopeID :: "(string \<Rightarrow> error + int) \<Rightarrow> string \<Rightarrow> error + int" where
  "scopeID xmailbox mailboxName =
     (if mailboxName = [] then Inr 0 else xmailbox mailboxName)"

text \<open>Modelled from the spec: \<open>c.ok(tag, cmd)\<close> is not among the sources; it writes
  the plain tagged success line.\<close>

definition ok :: "string \<Rightarrow> string \<Rightarrow> string" where
  "ok tag cmd = tag @ '' OK '' @ cmd @ '' done''"

text \<open>
  What \<open>cmdGetmetadata\<close> writes: at most one untagged \<open>METADATA\<close> response, kept as
  the mailbox name and the annotations it lists, and the tagged status line.
\<close>

record getmetadata_response =
  untagged :: "(string \<times> Annotation list) option"
  tagged :: string

text \<open>
  \<open>cmdGetmetadata\<close> after parsing: the read transaction on the table \<open>tx\<close> and the
  response.
\<close>

definition cmdGetmetadata ::
  "(string \<Rightarrow> error + int) \<Rightarrow> table \<Rightarrow> string \<Rightarrow> string \<Rightarrow> int \<Rightarrow> string \<Rightarrow> string
     \<Rightarrow> string list \<Rightarrow> error + getmetadata_response" where
  "cmdGetmetadata xmailbox tx tag cmd optMaxSize optDepth mailboxName entryNames =
     (case scopeID xmailbox mailboxName of
        Inl e \<Rightarrow> Inl e
      | Inr mbID \<Rightarrow>
          (case ForEach (filter (\<lambda>a. MailboxID a = mbID) tx)
                  (getmetadataRow optMaxSize optDepth entryNames) ([], - 1) of
             Inl e \<Rightarrow> Inl e
           | Inr (annotations, longentries) \<Rightarrow>
               Inr \<lparr> untagged =
                       (if annotations \<noteq> [] then Some (mailboxName, annotations) else None),
                     tagged =
                       (if 0 \<le> longentries
                        then tag @ '' OK [METADATA LONGENTRIES '' @ Itoa longentries
                               @ ''] getmetadata done''
                        else ok tag cmd) \<rparr>))"

section \<open>SETMETADATA: checks on the entry names\<close>

text \<open>
  The body of the loop \<open>for _, a := range l\<close> that checks the entry names before any
  transaction is opened, for one entry name. \<open>a.Key[1:]\<close> is only evaluated for a key
  that starts with \<open>/private/\<close>, so the slice is in range.
\<close>

definition checkEntryName :: "string \<Rightarrow> error + unit" where
  "checkEntryName key =
     (if \<not> HasPrefix key ''/private/'' then
        Inl (UserError ''only /private/* entry names allowed'')
      else if (key = ''/private/vendor'' \<or> HasPrefix key ''/private/vendor/'')
              \<and> length (SplitN (drop 1 key) CHR ''/'' 4) < 4 then
        Inl (UserError
          ''entry names starting with /private/vendor must have at least 4 components'')
      else Inr ())"

fun checkEntryNames :: "Annotation list \<Rightarrow> error + unit" where
  "checkEntryNames [] = Inr ()"
| "checkEntryNames (a # l) =
     (case checkEntryName (Key a) of Inl e \<Rightarrow> Inl e | Inr u \<Rightarrow> checkEntryNames l)"

section \<open>SETMETADATA: the write transaction\<close>

text \<open>Modelled from the spec: the declaration of \<open>store.Annotation\<close> with its
  unique index is not among the sources. The store keeps at most one annotation for a
  pair of mailbox and entry name.\<close>

definition uniqueKeys :: "table \<Rightarrow> bool" where
  "uniqueKeys tx = distinct (map (\<lambda>r. (MailboxID r, Key r)) tx)"

text \<open>Modelled from the spec: \<open>store.Annotation.Change\<close> and the change type are not
  among the sources. A change record names the scope of the annotation (mailbox ID and
  mailbox name, empty for the global scope) and its entry name.\<close>

datatype change = ChangeAnnotation int string string

definition Change :: "Annotation \<Rightarrow> string \<Rightarrow> change" where
  "Change a mailboxName = ChangeAnnotation (MailboxID a) mailboxName (Key a)"

text \<open>
  The body of the loop \<open>for _, a := range l\<close> inside the transaction, on the table
  \<open>tx\<close> and the list \<open>changes\<close>. The query \<open>q\<close> selects the rows with the key of
  \<open>a\<close> (never empty after the checks) in the mailbox \<open>mbID\<close>. \<open>q.Get()\<close> gives
  \<open>ErrAbsent\<close> on no row, the row when there is one, and an error on several rows.
  \<open>tx.Update(&oa)\<close> replaces the row that was read by \<open>oa\<close>.
\<close>

definition setAnnotation ::
  "int \<Rightarrow> string \<Rightarrow> Annotation \<Rightarrow> table \<times> change list \<Rightarrow> error + table \<times> change list" where
  "setAnnotation mbID mailboxName a st =
     (case st of (tx, changes) \<Rightarrow>
        let q = (\<lambda>r. Key r = Key a \<and> MailboxID r = mbID) in
        if Value a = None then
          (let deleted = filter q tx
           in Inr (filter (\<lambda>r. \<not> q r) tx,
                   changes @ map (\<lambda>oa. Change oa mailboxName) deleted))
        else
          (let a' = a\<lparr>MailboxID := mbID\<rparr> in
           case filter q tx of
             [] \<Rightarrow> Inr (tx @ [a'], changes @ [Change a' mailboxName])
           | [oa] \<Rightarrow>
               Inr (map (\<lambda>r. if q r then oa\<lparr>Value := Value a'\<rparr> else r) tx,
                    changes @
                      (if IsString oa \<noteq> IsString a'
                          \<or> (Value oa = None) \<noteq> (Value a' = None)
                          \<or> \<not> bytes_Equal (Value oa) (Value a')
                       then [Change a' mailboxName] else []))
           | oa # ob # others \<Rightarrow>
               Inl (ServerError ''looking up existing annotation for entry name'')))"

text \<open>
  The initial values of the limits, which are variables (``changed during tests''), so
  the functions below take the limits as the parameters \<open>maxKeys\<close> and \<open>maxSize\<close>.
\<close>

definition metadataMaxKeys :: int where
  "metadataMaxKeys = 1000"

definition metadataMaxSize :: int where
  "metadataMaxSize = 1000 * 1000"

text \<open>What a row adds to the total size: \<open>len(a.Key) + len(a.Value)\<close>.\<close>

definition annotationSize :: "Annotation \<Rightarrow> int" where
  "annotationSize a = int (length (Key a)) + int (len_bytes (Value a))"

text \<open>
  The callback of the quota scan, on the counters \<open>n\<close> and \<open>size\<close> (here \<open>sz\<close>).
\<close>

definition quotaRow :: "int \<Rightarrow> int \<Rightarrow> Annotation \<Rightarrow> int \<times> int \<Rightarrow> error + int \<times> int" where
  "quotaRow maxKeys maxSize a st =
     (case st of (n, sz) \<Rightarrow>
        let n' = n + 1 in
        if n' > maxKeys then
          Inl (UserCodeError ''METADATA TOOMANY''
                 ''too many metadata entries, 1000 allowed in total'')
        else
          (let sz' = sz + annotationSize a in
           if sz' > maxSize then
             Inl (UserCodeError (''METADATA MAXSIZE '' @ Itoa maxSize)
                    ''metadata entry values too large, total maximum size is 1MB'')
           else Inr (n', sz')))"

text \<open>
  The function \<open>cmdSetmetadata\<close> passes to \<open>c.xdbwrite\<close>: the mailbox lookup, the
  mutations, then the scan of all annotations of the table. It gives the table as the
  transaction leaves it and the changes to broadcast.
\<close>

definition setmetadataTx ::
  "(string \<Rightarrow> error + int) \<Rightarrow> int \<Rightarrow> int \<Rightarrow> string \<Rightarrow> Annotation list \<Rightarrow> table
     \<Rightarrow> error + table \<times> change list" where
  "setmetadataTx xmailbox maxKeys maxSize mailboxName l tx =
     (case scopeID xmailbox mailboxName of
        Inl e \<Rightarrow> Inl e
      | Inr mbID \<Rightarrow>
          (case ForEach l (setAnnotation mbID mailboxName) (tx, []) of
             Inl e \<Rightarrow> Inl e
           | Inr (tx', changes) \<Rightarrow>
               (case ForEach tx' (quotaRow maxKeys maxSize) (0, 0) of
                  Inl e \<Rightarrow> Inl e
                | Inr c \<Rightarrow> Inr (tx', changes))))"

text \<open>Modelled from the spec: \<open>c.xdbwrite\<close> and the store's transactions are not
  among the sources. A write transaction that ends in an error is rolled back, so the
  stored table is the one before it; otherwise its table is committed.\<close>

definition xdbwrite :: "table \<Rightarrow> (table \<Rightarrow> error + table \<times> 'a) \<Rightarrow> table \<times> (error + 'a)" where
  "xdbwrite db fn =
     (case fn db of Inl e \<Rightarrow> (db, Inl e) | Inr (tx', r) \<Rightarrow> (tx', Inr r))"

text \<open>
  \<open>cmdSetmetadata\<close> after parsing, on the stored table \<open>db\<close>: the stored table
  after the command, and either the error raised or the changes broadcast together
  with the tagged status line.
\<close>

definition cmdSetmetadata ::
  "(string \<Rightarrow> error + int) \<Rightarrow> int \<Rightarrow> int \<Rightarrow> table \<Rightarrow> string \<Rightarrow> string \<Rightarrow> string
     \<Rightarrow> Annotation list \<Rightarrow> table \<times> (error + change list \<times> string)" where
  "cmdSetmetadata xmailbox maxKeys maxSize db tag cmd mailboxName l =
     (case checkEntryNames l of
        Inl e \<Rightarrow> (db, Inl e)
      | Inr u \<Rightarrow>
          (case xdbwrite db (setmetadataTx xmailbox maxKeys maxSize mailboxName l) of
             (db', Inl e) \<Rightarrow> (db', Inl e)
           | (db', Inr changes) \<Rightarrow> (db', Inr (changes, ok tag cmd))))"

section \<open>GETMETADATA: the option list\<close>

text \<open>Modelled from the spec: the parser (\<open>p.take\<close>, \<open>p.xtake\<close>, \<open>p.xspace\<close>,
  \<open>p.xnumber\<close>, \<open>p.xtakelist\<close>) is not among the sources. The state of the parser
  is the rest of the command line in upper case, since keywords are matched without
  regard to case. \<open>take\<close> consumes the given text if the rest starts with it and tells
  whether it did; \<open>xtake\<close> raises a syntax error if it did not; \<open>xspace\<close> is
  \<open>xtake(" ")\<close>; \<open>xnumber\<close> reads a non-empty run of decimal digits as an unsigned
  32-bit number; \<open>xtakelist\<close> takes the first text of its list that \<open>take\<close>
  accepts.\<close>

definition takeP :: "string \<Rightarrow> string \<Rightarrow> string option" where
  "takeP s p = (if HasPrefix p s then Some (drop (length s) p) else None)"

definition xtake :: "string \<Rightarrow> string \<Rightarrow> error + string" where
  "xtake s p =
     (case takeP s p of Some p' \<Rightarrow> Inr p' | None \<Rightarrow> Inl (SyntaxError (''expected '' @ s)))"

definition xspace :: "string \<Rightarrow> error + string" where
  "xspace p = xtake '' '' p"

definition isDigit :: "char \<Rightarrow> bool" where
  "isDigit c = (c \<in> set ''0123456789'')"

definition digits :: "string \<Rightarrow> string" where
  "digits p = takeWhile isDigit p"

definition decimal :: "string \<Rightarrow> int" where
  "decimal s = foldl (\<lambda>n c. 10 * n + (of_char c - 48)) 0 s"

definition xnumber :: "string \<Rightarrow> error + int \<times> string" where
  "xnumber p =
     (let s = digits p in
      if s = [] then Inl (SyntaxError ''expected number'')
      else if 2 ^ 32 \<le> decimal s then Inl (SyntaxError ''parsing number'')
      else Inr (decimal s, drop (length s) p))"

fun xtakelist :: "string list \<Rightarrow> string \<Rightarrow> error + string \<times> string" where
  "xtakelist [] p = Inl (SyntaxError ''expected one of the list'')"
| "xtakelist (s # l) p =
     (case takeP s p of Some p' \<Rightarrow> Inr (s, p') | None \<Rightarrow> xtakelist l p)"

text \<open>
  The body of the loop over the options of \<open>cmdGetmetadata\<close>, up to the test for the
  closing parenthesis: one option is parsed, and \<open>optMaxSize\<close> or \<open>optDepth\<close> is set.
\<close>

definition getmetadataOption ::
  "int \<Rightarrow> string \<Rightarrow> string \<Rightarrow> error + (int \<times> string) \<times> string" where
  "getmetadataOption optMaxSize optDepth p =
     (case takeP ''MAXSIZE'' p of
        Some p1 \<Rightarrow>
          (case xspace p1 of
             Inl e \<Rightarrow> Inl e
           | Inr p2 \<Rightarrow>
               (case xnumber p2 of
                  Inl e \<Rightarrow> Inl e
                | Inr (v, p3) \<Rightarrow>
                    if 0 \<le> optMaxSize then
                      Inl (SyntaxError ''only a single maxsize option accepted'')
                    else Inr ((v, optDepth), p3)))
      | None \<Rightarrow>
          (case takeP ''DEPTH'' p of
             Some p1 \<Rightarrow>
               (case xspace p1 of
                  Inl e \<Rightarrow> Inl e
                | Inr p2 \<Rightarrow>
                    (case xtakelist [''0'', ''1'', ''INFINITY''] p2 of
                       Inl e \<Rightarrow> Inl e
                     | Inr (s, p3) \<Rightarrow>
                         if optDepth \<noteq> [] then
                           Inl (SyntaxError ''only single depth option accepted'')
                         else Inr ((optMaxSize, s), p3)))
           | None \<Rightarrow>
               Inl (SyntaxError
                 ''unknown option for getmetadata, expected maxsize or depth'')))"

text \<open>
  The loop \<open>for { ... }\<close> over the options: after an option, a closing parenthesis
  ends the loop, otherwise a space must follow and the next option is parsed. Each
  round consumes input, so the loop ends.
\<close>

function getmetadataOptionLoop ::
  "int \<Rightarrow> string \<Rightarrow> string \<Rightarrow> error + (int \<times> string) \<times> string" where
  "getmetadataOptionLoop optMaxSize optDepth p =
     (case getmetadataOption optMaxSize optDepth p of
        Inl e \<Rightarrow> Inl e
      | Inr ((m, d), p') \<Rightarrow>
          (case takeP '')'' p' of
             Some p'' \<Rightarrow> Inr ((m, d), p'')
           | None \<Rightarrow>
               (case xspace p' of
                  Inl e \<Rightarrow> Inl e
                | Inr p'' \<Rightarrow> getmetadataOptionLoop m d p'')))"
  by pat_completeness auto
termination
proof (relation "measure (\<lambda>(optMaxSize, optDepth, p). length p)")
  show "wf (measure (\<lambda>(optMaxSize, optDepth, p). length p))"
    by simp
next
  fix optMaxSize :: int and optDepth p :: string and x y m d p' p''
  assume opt: "getmetadataOption optMaxSize optDepth p = Inr x" and x: "(y, p') = x"
    and sp: "xspace p' = Inr p''"
  have takeP_length: "length q = length s + length q'" if "takeP s q = Some q'" for s q q'
    using that by (auto simp: takeP_def HasPrefix_def split: if_splits)
  have xspace_length: "length q = 1 + length q'" if "xspace q = Inr q'" for q q'
    using that takeP_length [of "'' ''" q q']
    by (cases "takeP '' '' q") (simp_all add: xspace_def xtake_def)
  have xnumber_length: "length q' \<le> length q" if "xnumber q = Inr (v, q')" for v q q'
    using that by (auto simp: xnumber_def Let_def split: if_splits)
  have xtakelist_length: "length q' \<le> length q" if "xtakelist l q = Inr (s, q')" for l s q q'
    using that
  proof (induction l)
    case Nil
    then show ?case by simp
  next
    case (Cons a l)
    show ?case
    proof (cases "takeP a q")
      case None
      then show ?thesis using Cons by simp
    next
      case (Some r)
      then show ?thesis using Cons.prems takeP_length [OF Some] by simp
    qed
  qed
  have opt': "getmetadataOption optMaxSize optDepth p = Inr (y, p')"
    using opt x by simp
  have "length p' < length p"
  proof (cases "takeP ''MAXSIZE'' p")
    case (Some p1)
    have 1: "length p1 < length p"
      using takeP_length [OF Some] by simp
    obtain p2 where 2: "xspace p1 = Inr p2"
      using opt' Some by (cases "xspace p1") (simp_all add: getmetadataOption_def)
    obtain v p3 where 3: "xnumber p2 = Inr (v, p3)"
      using opt' Some 2 by (cases "xnumber p2") (auto simp: getmetadataOption_def)
    have "p' = p3"
      using opt' Some 2 3 by (simp add: getmetadataOption_def split: if_splits)
    then show ?thesis
      using 1 xspace_length [OF 2] xnumber_length [OF 3] by simp
  next
    case None
    show ?thesis
    proof (cases "takeP ''DEPTH'' p")
      case (Some p1)
      have 1: "length p1 < length p"
        using takeP_length [OF Some] by simp
      obtain p2 where 2: "xspace p1 = Inr p2"
        using opt' None Some by (cases "xspace p1") (simp_all add: getmetadataOption_def)
      obtain s p3 where 3: "xtakelist [''0'', ''1'', ''INFINITY''] p2 = Inr (s, p3)"
        using opt' None Some 2
        by (cases "xtakelist [''0'', ''1'', ''INFINITY''] p2") (auto simp: getmetadataOption_def)
      have "p' = p3"
        using opt' None Some 2 3 by (simp add: getmetadataOption_def split: if_splits)
      then show ?thesis
        using 1 xspace_length [OF 2] xtakelist_length [OF 3] by simp
    next
      case n: None
      then show ?thesis using opt' None by (simp add: getmetadataOption_def)
    qed
  qed
  then show "((m, d, p''), optMaxSize, optDepth, p)
      \<in> measure (\<lambda>(optMaxSize, optDepth, p). length p)"
    using xspace_length [OF sp] by simp
qed

text \<open>
  The start of \<open>cmdGetmetadata\<close>: a space, then the option list if an opening
  parenthesis follows, with a space after it. Without option list \<open>optMaxSize\<close> is
  -1 and \<open>optDepth\<close> is empty. The result holds the two options and the rest of the
  line, which starts with the mailbox name.
\<close>

definition getmetadataOptions :: "string \<Rightarrow> error + (int \<times> string) \<times> string" where
  "getmetadataOptions p0 =
     (case xspace p0 of
        Inl e \<Rightarrow> Inl e
      | Inr p \<Rightarrow>
          (case takeP ''('' p of
             None \<Rightarrow> Inr ((- 1, []), p)
           | Some p1 \<Rightarrow>
               (case getmetadataOptionLoop (- 1) [] p1 of
                  Inl e \<Rightarrow> Inl e
                | Inr (md, p2) \<Rightarrow>
                    (case xspace p2 of
                       Inl e \<Rightarrow> Inl e
                     | Inr p3 \<Rightarrow> Inr (md, p3)))))"

declare getmetadataOptionLoop.simps [simp del]

section \<open>Option lists as the client writes them\<close>

text \<open>
  To state what the option parser accepts, an option list is written out from its
  options: \<open>MAXSIZE\<close> and \<open>DEPTH\<close> with their argument, or any other word. Options are
  separated by one space. Arguments and other words are atoms: they hold neither a space
  nor a closing parenthesis, and an other word is not one of the two keywords.
\<close>

datatype getopt = Maxsize string | Depth string | Unknown string

fun optText :: "getopt \<Rightarrow> string" where
  "optText (Maxsize n) = ''MAXSIZE '' @ n"
| "optText (Depth a) = ''DEPTH '' @ a"
| "optText (Unknown kw) = kw"

fun optsText :: "getopt list \<Rightarrow> string" where
  "optsText [] = []"
| "optsText [x] = optText x"
| "optsText (x # y # os) = optText x @ '' '' @ optsText (y # os)"

definition atom :: "string \<Rightarrow> bool" where
  "atom a = (CHR '' '' \<notin> set a \<and> CHR '')'' \<notin> set a)"

fun wfOpt :: "getopt \<Rightarrow> bool" where
  "wfOpt (Maxsize n) = atom n"
| "wfOpt (Depth a) = atom a"
| "wfOpt (Unknown kw) = (atom kw \<and> kw \<noteq> ''MAXSIZE'' \<and> kw \<noteq> ''DEPTH'')"

fun isMaxsize :: "getopt \<Rightarrow> bool" where
  "isMaxsize (Maxsize n) = True"
| "isMaxsize x = False"

fun isDepth :: "getopt \<Rightarrow> bool" where
  "isDepth (Depth a) = True"
| "isDepth x = False"

text \<open>
  The option lists of the grammar: \<open>MAXSIZE\<close> with a number of at most 32 bits and
  \<open>DEPTH\<close> with \<open>0\<close>, \<open>1\<close> or \<open>INFINITY\<close>, each accepted at most once. The state is
  the pair of \<open>optMaxSize\<close> and \<open>optDepth\<close>.
\<close>

definition isNumber :: "string \<Rightarrow> bool" where
  "isNumber n = (n \<noteq> [] \<and> digits n = n \<and> decimal n < 2 ^ 32)"

fun acceptOpt :: "int \<times> string \<Rightarrow> getopt \<Rightarrow> (int \<times> string) option" where
  "acceptOpt (m, d) (Maxsize n) = (if isNumber n \<and> m < 0 then Some (decimal n, d) else None)"
| "acceptOpt (m, d) (Depth a) =
     (if a \<in> set [''0'', ''1'', ''INFINITY''] \<and> d = [] then Some (m, a) else None)"
| "acceptOpt (m, d) (Unknown kw) = None"

fun acceptOpts :: "int \<times> string \<Rightarrow> getopt list \<Rightarrow> (int \<times> string) option" where
  "acceptOpts md [] = Some md"
| "acceptOpts md (x # os) =
     (case acceptOpt md x of None \<Rightarrow> None | Some md' \<Rightarrow> acceptOpts md' os)"

section \<open>Properties of the primitives\<close>

lemma HasPrefix_prefix: "HasPrefix s pre \<longleftrightarrow> prefix pre s"
  unfolding HasPrefix_def
  by (metis append_eq_conv_conj prefix_def prefix_length_le take_is_prefix)

lemma SplitN_two_length: "length (SplitN s sep 2) = Suc 0 \<longleftrightarrow> sep \<notin> set s"
  by (simp add: numeral_2_eq_2)

section \<open>Hierarchical matching\<close>

lemma matchNames_INFINITY:
  "matchNames ''INFINITY'' key ss \<longleftrightarrow> (\<exists>e\<in>set ss. prefix (entryPrefix e) key)"
  by (induction ss) (simp_all add: HasPrefix_prefix Let_def)

lemma matchNames_1:
  "matchNames ''1'' key ss \<longleftrightarrow>
     (\<exists>e\<in>set ss. prefix (entryPrefix e) key \<and>
        CHR ''/'' \<notin> set (drop (length (entryPrefix e)) key))"
proof (induction ss)
  case Nil
  show ?case by simp
next
  case (Cons s ss)
  show ?case
  proof (cases "prefix (entryPrefix s) key")
    case False
    then show ?thesis
      using Cons.IH by (simp add: HasPrefix_prefix Let_def)
  next
    case True
    then show ?thesis
      using Cons.IH by (cases "CHR ''/'' \<in> set (drop (length (entryPrefix s)) key)")
        (simp_all add: HasPrefix_prefix Let_def SplitN_two_length)
  qed
qed

lemma entryPrefix_spec: "entryPrefix e = (if e = ''/'' then ''/'' else e @ ''/'')"
  by (simp add: entryPrefix_def)

text \<open>
  C1. A stored key \<open>k\<close> is matched against the requested entry names \<open>E\<close> as follows.
  With depth \<open>""\<close> or \<open>"0"\<close>, \<open>k\<close> matches iff it is a member of \<open>E\<close>. With depth
  \<open>"INFINITY"\<close>, \<open>k\<close> matches iff it is a member of \<open>E\<close> or starts with \<open>e + "/"\<close> for
  some \<open>e\<close> of \<open>E\<close>, where the prefix of \<open>e = "/"\<close> is \<open>"/"\<close> itself. With depth
  \<open>"1"\<close>, \<open>k\<close> matches iff it is a member of \<open>E\<close> or starts with such a prefix and has no
  further \<open>"/"\<close> in the remainder after it. The answer depends on the set of entry
  names only, not on the order in which the loop visits them.
\<close>

theorem matchEntry_depth:
  "matchEntry '''' E k = Inr (k \<in> set E) \<and>
   matchEntry ''0'' E k = Inr (k \<in> set E) \<and>
   matchEntry ''INFINITY'' E k =
     Inr (k \<in> set E \<or> (\<exists>e\<in>set E. prefix (if e = ''/'' then ''/'' else e @ ''/'') k)) \<and>
   matchEntry ''1'' E k =
     Inr (k \<in> set E \<or>
          (\<exists>e\<in>set E. prefix (if e = ''/'' then ''/'' else e @ ''/'') k \<and>
             CHR ''/'' \<notin> set (drop (length (if e = ''/'' then ''/'' else e @ ''/'')) k)))"
  by (simp add: matchEntry_def matchNames_INFINITY matchNames_1 entryPrefix_spec)

theorem matchEntry_depth_witness:
  "map (matchEntry ''1'' [''/private/a'']) [''/private/a'', ''/private/a/b'', ''/private/a/b/c''] =
     [Inr True, Inr True, Inr False] \<and>
   map (matchEntry ''INFINITY'' [''/private/a''])
     [''/private/a'', ''/private/a/b'', ''/private/a/b/c''] = [Inr True, Inr True, Inr True] \<and>
   map (matchEntry [] [''/private/a'']) [''/private/a'', ''/private/a/b'', ''/private/a/b/c''] =
     [Inr True, Inr False, Inr False] \<and>
   matchEntry ''1'' [''/''] ''/private'' = Inr True \<and>
   matchEntry ''1'' [''/''] ''/private/a'' = Inr False"
  using matchEntry_depth [of "[''/private/a'']" "''/private/a''"]
    matchEntry_depth [of "[''/private/a'']" "''/private/a/b''"]
    matchEntry_depth [of "[''/private/a'']" "''/private/a/b/c''"]
    matchEntry_depth [of "[''/'']" "''/private''"]
    matchEntry_depth [of "[''/'']" "''/private/a''"]
  by simp

section \<open>GETMETADATA with a size limit\<close>

lemma matchEntry_valid:
  "d \<in> {'''', ''0'', ''1'', ''INFINITY''} \<Longrightarrow> \<exists>b. matchEntry d E k = Inr b"
  by (auto simp: matchEntry_def)

lemma foldl_max_Max: "foldl max le xs = Max (insert le (set xs))" for le :: int
proof (induction xs arbitrary: le)
  case Nil
  show ?case by simp
next
  case (Cons x xs)
  have "Max (insert (max le x) (set xs)) = Max (insert le (insert x (set xs)))"
    by (cases "set xs = {}") (simp_all add: max.assoc)
  then show ?case by (simp add: Cons.IH)
qed

lemma foldl_max_longentries:
  assumes "\<forall>x\<in>set xs. (0::int) \<le> x"
  shows "foldl max (- 1) xs = (if xs = [] then - 1 else Max (set xs))"
    and "0 \<le> foldl max (- 1) xs \<longleftrightarrow> xs \<noteq> []"
proof -
  show eq: "foldl max (- 1) xs = (if xs = [] then - 1 else Max (set xs))"
  proof (cases "xs = []")
    case True
    then show ?thesis by simp
  next
    case False
    then have "Max (set xs) \<in> set xs" by simp
    then have "0 \<le> Max (set xs)" using assms by blast
    then show ?thesis using False by (simp add: foldl_max_Max)
  qed
  show "0 \<le> foldl max (- 1) xs \<longleftrightarrow> xs \<noteq> []"
  proof (cases "xs = []")
    case True
    then show ?thesis by simp
  next
    case False
    then have "Max (set xs) \<in> set xs" by simp
    then have "0 \<le> Max (set xs)" using assms by blast
    then show ?thesis using False eq by simp
  qed
qed

lemma ForEach_partition:
  assumes "\<And>a anns le. a \<in> set rows \<Longrightarrow>
     fn a (anns, le) =
       (if keep a then Inr (anns @ [a], le)
        else if excl a then Inr (anns, max le (g a)) else Inr (anns, le))"
  shows "ForEach rows fn (anns, le) =
     Inr (anns @ filter keep rows,
          foldl max le (map g (filter (\<lambda>a. \<not> keep a \<and> excl a) rows)))"
  using assms
proof (induction rows arbitrary: anns le)
  case Nil
  show ?case by simp
next
  case (Cons a rows)
  have step: "fn a (anns, le) =
       (if keep a then Inr (anns @ [a], le)
        else if excl a then Inr (anns, max le (g a)) else Inr (anns, le))"
    by (rule Cons.prems) simp
  have IH: "ForEach rows fn (anns', le') =
     Inr (anns' @ filter keep rows,
          foldl max le' (map g (filter (\<lambda>a. \<not> keep a \<and> excl a) rows)))" for anns' le'
    by (rule Cons.IH) (simp add: Cons.prems)
  show ?case
    by (simp add: step IH)
qed

lemma getmetadataRow_cases:
  assumes "d \<in> {'''', ''0'', ''1'', ''INFINITY''}" and "0 \<le> m"
  shows "getmetadataRow m d E a (anns, le) =
     (if matchEntry d E (Key a) = Inr True \<and> int (len_bytes (Value a)) \<le> m
      then Inr (anns @ [a], le)
      else if matchEntry d E (Key a) = Inr True \<and> m < int (len_bytes (Value a))
      then Inr (anns, max le (int (len_bytes (Value a))))
      else Inr (anns, le))"
proof -
  obtain b where b: "matchEntry d E (Key a) = Inr b"
    using matchEntry_valid [OF assms(1)] by blast
  show ?thesis
    using assms(2) by (cases b) (simp_all add: getmetadataRow_def b not_less)
qed

lemma ForEach_getmetadataRow:
  assumes "d \<in> {'''', ''0'', ''1'', ''INFINITY''}" and "0 \<le> m"
  shows "ForEach rows (getmetadataRow m d E) (anns, le) =
     Inr (anns @ filter (\<lambda>a. matchEntry d E (Key a) = Inr True \<and> int (len_bytes (Value a)) \<le> m) rows,
          foldl max le (map (\<lambda>a. int (len_bytes (Value a)))
             (filter (\<lambda>a. matchEntry d E (Key a) = Inr True \<and> m < int (len_bytes (Value a))) rows)))"
proof -
  have eq: "(\<lambda>a. \<not> (matchEntry d E (Key a) = Inr True \<and> int (len_bytes (Value a)) \<le> m) \<and>
           (matchEntry d E (Key a) = Inr True \<and> m < int (len_bytes (Value a)))) =
       (\<lambda>a. matchEntry d E (Key a) = Inr True \<and> m < int (len_bytes (Value a)))"
    by (rule ext) auto
  show ?thesis
    using ForEach_partition [of rows "getmetadataRow m d E"
      "\<lambda>a. matchEntry d E (Key a) = Inr True \<and> int (len_bytes (Value a)) \<le> m"
      "\<lambda>a. matchEntry d E (Key a) = Inr True \<and> m < int (len_bytes (Value a))"
      "\<lambda>a. int (len_bytes (Value a))" anns le, OF getmetadataRow_cases [OF assms]]
    unfolding eq .
qed

text \<open>
  C4. For a GETMETADATA with a \<open>MAXSIZE\<close> option (\<open>optMaxSize\<close> is then not
  negative), a legal depth and a scope that resolves: the response lists exactly the
  matching annotations of the scope whose value is not longer than \<open>MAXSIZE\<close>, in
  table order. If no matching annotation was left out for its length the status line
  is the plain one; otherwise it carries \<open>METADATA LONGENTRIES n\<close>, with \<open>n\<close> the
  largest length of a value left out (not the number of values left out).
\<close>

theorem cmdGetmetadata_maxsize:
  assumes d: "optDepth \<in> {'''', ''0'', ''1'', ''INFINITY''}"
    and m: "0 \<le> optMaxSize"
    and s: "scopeID xmailbox mailboxName = Inr mbID"
  shows "cmdGetmetadata xmailbox tx tag cmd optMaxSize optDepth mailboxName entryNames =
     (let matching = filter (\<lambda>a. matchEntry optDepth entryNames (Key a) = Inr True)
                       (filter (\<lambda>a. MailboxID a = mbID) tx);
          returned = filter (\<lambda>a. int (len_bytes (Value a)) \<le> optMaxSize) matching;
          excluded = filter (\<lambda>a. optMaxSize < int (len_bytes (Value a))) matching
      in Inr \<lparr> untagged = (if returned = [] then None else Some (mailboxName, returned)),
               tagged =
                 (if excluded = [] then ok tag cmd
                  else tag @ '' OK [METADATA LONGENTRIES ''
                         @ Itoa (Max (set (map (\<lambda>a. int (len_bytes (Value a))) excluded)))
                         @ ''] getmetadata done'') \<rparr>)"
proof -
  define rows where "rows = filter (\<lambda>a. MailboxID a = mbID) tx"
  define excluded where "excluded =
    filter (\<lambda>a. matchEntry optDepth entryNames (Key a) = Inr True \<and> optMaxSize < int (len_bytes (Value a))) rows"
  define lens where "lens = map (\<lambda>a. int (len_bytes (Value a))) excluded"
  have nonneg: "\<forall>x\<in>set lens. 0 \<le> x"
    by (auto simp: lens_def)
  have lens_Nil: "lens = [] \<longleftrightarrow> excluded = []"
    by (simp add: lens_def)
  have scan: "ForEach rows (getmetadataRow optMaxSize optDepth entryNames) ([], - 1) =
     Inr (filter (\<lambda>a. matchEntry optDepth entryNames (Key a) = Inr True \<and> int (len_bytes (Value a)) \<le> optMaxSize) rows,
          foldl max (- 1) lens)"
    using ForEach_getmetadataRow [OF d m, of rows entryNames "[]" "- 1"]
    by (simp add: lens_def excluded_def)
  have conj1: "filter (\<lambda>a. int (len_bytes (Value a)) \<le> optMaxSize)
       (filter (\<lambda>a. matchEntry optDepth entryNames (Key a) = Inr True) rows) =
     filter (\<lambda>a. matchEntry optDepth entryNames (Key a) = Inr True \<and> int (len_bytes (Value a)) \<le> optMaxSize) rows"
    by (simp add: conj_commute)
  have conj2: "filter (\<lambda>a. optMaxSize < int (len_bytes (Value a)))
       (filter (\<lambda>a. matchEntry optDepth entryNames (Key a) = Inr True) rows) = excluded"
    by (simp add: excluded_def conj_commute)
  have run: "cmdGetmetadata xmailbox tx tag cmd optMaxSize optDepth mailboxName entryNames =
     (case ForEach rows (getmetadataRow optMaxSize optDepth entryNames) ([], - 1) of
        Inl e \<Rightarrow> Inl e
      | Inr (annotations, longentries) \<Rightarrow>
          Inr \<lparr> untagged =
                  (if annotations \<noteq> [] then Some (mailboxName, annotations) else None),
                tagged =
                  (if 0 \<le> longentries
                   then tag @ '' OK [METADATA LONGENTRIES '' @ Itoa longentries
                          @ ''] getmetadata done''
                   else ok tag cmd) \<rparr>)"
    by (simp add: cmdGetmetadata_def s rows_def)
  have le: "foldl max (- 1) lens = (if excluded = [] then - 1 else Max (set lens))"
    and ge: "0 \<le> foldl max (- 1) lens \<longleftrightarrow> excluded \<noteq> []"
    using foldl_max_longentries [OF nonneg] by (simp_all add: lens_Nil)
  show ?thesis
    unfolding run scan Let_def rows_def [symmetric] conj1 conj2 lens_def [symmetric]
    using ge by (simp add: le)
qed

theorem cmdGetmetadata_maxsize_witness:
  "cmdGetmetadata (\<lambda>n. Inl (ServerError n))
     [\<lparr>MailboxID = 0, Key = ''/private/a'', IsString = True, Value = Some (replicate 50 CHR ''x'')\<rparr>,
      \<lparr>MailboxID = 0, Key = ''/private/b'', IsString = True, Value = Some ''12345''\<rparr>]
     ''x'' ''getmetadata'' 10 [] [] [''/private/a'', ''/private/b''] =
   Inr \<lparr> untagged = Some ([], [\<lparr>MailboxID = 0, Key = ''/private/b'', IsString = True, Value = Some ''12345''\<rparr>]),
         tagged = ''x OK [METADATA LONGENTRIES 50] getmetadata done'' \<rparr>"
proof -
  have d: "[] \<in> {'''', ''0'', ''1'', ''INFINITY''}" by simp
  have m: "(0::int) \<le> 10" by simp
  have s: "scopeID (\<lambda>n. Inl (ServerError n)) [] = Inr 0" by (simp add: scopeID_def)
  have i: "Itoa 50 = ''50''" by (simp add: Itoa_def Itoa_nat.simps)
  show ?thesis
    unfolding cmdGetmetadata_maxsize [OF d m s]
    by (simp add: matchEntry_def len_bytes_def bytes_of_def i)
qed

section \<open>SETMETADATA: entry names\<close>

lemma checkEntryName_error:
  "checkEntryName key = Inl e \<Longrightarrow> \<exists>msg. e = UserError msg"
  by (auto simp: checkEntryName_def split: if_splits)

lemma checkEntryName_namespace:
  "\<not> prefix ''/private/'' key \<Longrightarrow>
   checkEntryName key = Inl (UserError ''only /private/* entry names allowed'')"
  by (simp add: checkEntryName_def HasPrefix_prefix)

lemma checkEntryNames_namespace:
  "a \<in> set l \<Longrightarrow> \<not> prefix ''/private/'' (Key a) \<Longrightarrow>
   \<exists>msg. checkEntryNames l = Inl (UserError msg)"
proof (induction l)
  case Nil
  then show ?case by simp
next
  case (Cons b l)
  show ?case
  proof (cases "checkEntryName (Key b)")
    case (Inl e)
    then show ?thesis using checkEntryName_error [OF Inl] by auto
  next
    case (Inr u)
    then have "b \<noteq> a"
      using Cons.prems(2) checkEntryName_namespace by fastforce
    then show ?thesis using Cons Inr by simp
  qed
qed

text \<open>
  C5. A SETMETADATA with an entry name that does not start with \<open>/private/\<close> fails
  with a user error in the checks on the entry names, before the write transaction:
  whatever the mailbox lookup and the limits are, the stored table is the one before
  the command and nothing is broadcast.
\<close>

theorem cmdSetmetadata_namespace:
  assumes "a \<in> set l" and "\<not> prefix ''/private/'' (Key a)"
  shows "\<exists>msg. checkEntryNames l = Inl (UserError msg) \<and>
     cmdSetmetadata xmailbox maxKeys maxSize db tag cmd mailboxName l = (db, Inl (UserError msg))"
proof -
  obtain msg where "checkEntryNames l = Inl (UserError msg)"
    using checkEntryNames_namespace [OF assms] by blast
  then show ?thesis by (simp add: cmdSetmetadata_def)
qed

theorem cmdSetmetadata_namespace_witness:
  "\<exists>msg. checkEntryNames
       [\<lparr>MailboxID = 0, Key = ''/private/comment'', IsString = True, Value = Some ''a''\<rparr>,
        \<lparr>MailboxID = 0, Key = ''/shared/comment'', IsString = True, Value = Some ''b''\<rparr>]
       = Inl (UserError msg) \<and>
     cmdSetmetadata (\<lambda>n. Inr 1) 1000 1000000
       [\<lparr>MailboxID = 1, Key = ''/private/comment'', IsString = True, Value = Some ''old''\<rparr>]
       ''x'' ''setmetadata'' ''Inbox''
       [\<lparr>MailboxID = 0, Key = ''/private/comment'', IsString = True, Value = Some ''a''\<rparr>,
        \<lparr>MailboxID = 0, Key = ''/shared/comment'', IsString = True, Value = Some ''b''\<rparr>]
       = ([\<lparr>MailboxID = 1, Key = ''/private/comment'', IsString = True, Value = Some ''old''\<rparr>],
          Inl (UserError msg))"
  by (rule cmdSetmetadata_namespace
      [of "\<lparr>MailboxID = 0, Key = ''/shared/comment'', IsString = True, Value = Some ''b''\<rparr>"])
    (simp_all add: prefix_def)

lemma count_list_dropWhile:
  "c \<in> set s \<Longrightarrow> count_list s c = Suc (count_list (drop 1 (dropWhile (\<lambda>x. x \<noteq> c) s)) c)"
  by (induction s) auto

lemma SplitN_length:
  "0 < n \<Longrightarrow> length (SplitN s c n) = min n (Suc (count_list s c))"
proof (induction s c n rule: SplitN.induct)
  case (1 s sep)
  then show ?case by simp
next
  case (2 s sep)
  show ?case by simp
next
  case (3 s sep n)
  show ?case
  proof (cases "sep \<in> set s")
    case True
    then show ?thesis
      using 3 count_list_dropWhile [OF True] by simp
  next
    case False
    then have "count_list s sep = 0" by (simp add: count_list_0_iff)
    then show ?thesis using False by simp
  qed
qed

text \<open>
  C6. For an entry name that is \<open>/private/vendor\<close> or starts with
  \<open>/private/vendor/\<close>, the check fails with the vendor error exactly when splitting
  \<open>key[1:]\<close> on \<open>/\<close> into at most 4 parts gives fewer than 4 parts, and passes
  otherwise, when the split gives 4 parts. Fewer than 4 parts means that the name has
  fewer than 4 slashes, that is fewer than 2 after \<open>/private/vendor\<close>.
\<close>

theorem checkEntryName_vendor:
  assumes "key = ''/private/vendor'' \<or> prefix ''/private/vendor/'' key"
  shows "checkEntryName key =
     (if length (SplitN (drop 1 key) CHR ''/'' 4) < 4
      then Inl (UserError
             ''entry names starting with /private/vendor must have at least 4 components'')
      else Inr ()) \<and>
     (length (SplitN (drop 1 key) CHR ''/'' 4) < 4 \<longleftrightarrow> count_list key CHR ''/'' < 4) \<and>
     (\<not> length (SplitN (drop 1 key) CHR ''/'' 4) < 4 \<longleftrightarrow>
        length (SplitN (drop 1 key) CHR ''/'' 4) = 4)"
proof -
  obtain zs where key: "key = ''/private/vendor'' @ zs"
    using assms by (auto simp: prefix_def)
  have p: "HasPrefix key ''/private/''"
    by (simp add: HasPrefix_def key)
  have v: "key = ''/private/vendor'' \<or> HasPrefix key ''/private/vendor/''"
    using assms by (simp add: HasPrefix_prefix)
  define n where "n = length (SplitN (drop 1 key) CHR ''/'' 4)"
  have chk: "checkEntryName key =
     (if n < 4
      then Inl (UserError
             ''entry names starting with /private/vendor must have at least 4 components'')
      else Inr ())"
    using p v by (simp add: checkEntryName_def n_def)
  have len: "n = min 4 (count_list key CHR ''/'')"
    by (simp add: n_def SplitN_length key)
  have "(n < 4 \<longleftrightarrow> count_list key CHR ''/'' < 4) \<and> (\<not> n < 4 \<longleftrightarrow> n = 4)"
    unfolding len by auto
  then show ?thesis
    unfolding n_def [symmetric] using chk by blast
qed

theorem checkEntryName_vendor_witness:
  "checkEntryName ''/private/vendor/a'' =
     Inl (UserError
       ''entry names starting with /private/vendor must have at least 4 components'') \<and>
   count_list ''/private/vendor/a'' CHR ''/'' = 3 \<and>
   checkEntryName ''/private/vendor/a/b'' = Inr () \<and>
   count_list ''/private/vendor/a/b'' CHR ''/'' = 4"
proof -
  have a: "''/private/vendor/a'' = ''/private/vendor'' \<or> prefix ''/private/vendor/'' ''/private/vendor/a''"
    by simp
  have b: "''/private/vendor/a/b'' = ''/private/vendor'' \<or> prefix ''/private/vendor/'' ''/private/vendor/a/b''"
    by simp
  have na: "count_list ''/private/vendor/a'' CHR ''/'' = 3" by simp
  have nb: "count_list ''/private/vendor/a/b'' CHR ''/'' = 4" by simp
  show ?thesis
    using checkEntryName_vendor [OF a] checkEntryName_vendor [OF b] na nb by simp
qed

section \<open>SETMETADATA: mutations and change records\<close>

lemma filter_absent:
  "(m, k) \<notin> set (map (\<lambda>r. (MailboxID r, Key r)) tx) \<Longrightarrow>
   filter (\<lambda>r. Key r = k \<and> MailboxID r = m) tx = []"
  by (induction tx) auto

lemma filter_unique:
  "uniqueKeys tx \<Longrightarrow>
   filter (\<lambda>r. Key r = k \<and> MailboxID r = m) tx =
     (case find (\<lambda>r. Key r = k \<and> MailboxID r = m) tx of None \<Rightarrow> [] | Some oa \<Rightarrow> [oa])"
proof (induction tx)
  case Nil
  show ?case by simp
next
  case (Cons r tx)
  then have u: "uniqueKeys tx" and n: "(MailboxID r, Key r) \<notin> set (map (\<lambda>r. (MailboxID r, Key r)) tx)"
    by (simp_all add: uniqueKeys_def)
  show ?case
  proof (cases "Key r = k \<and> MailboxID r = m")
    case True
    then have "filter (\<lambda>r. Key r = k \<and> MailboxID r = m) tx = []"
      using n filter_absent [of m k tx] by simp
    then show ?thesis using True by simp
  next
    case False
    then show ?thesis using Cons.IH [OF u] by auto
  qed
qed

lemma find_Some_props:
  "find P tx = Some oa \<Longrightarrow> P oa \<and> oa \<in> set tx"
  by (auto simp: find_Some_iff)





lemma setAnnotation_insert:
  "Value a = Some v \<Longrightarrow> filter (\<lambda>r. Key r = Key a \<and> MailboxID r = mbID) tx = [] \<Longrightarrow>
   setAnnotation mbID mailboxName a (tx, changes) =
     Inr (tx @ [a\<lparr>MailboxID := mbID\<rparr>], changes @ [Change (a\<lparr>MailboxID := mbID\<rparr>) mailboxName])"
  by (simp add: setAnnotation_def Let_def)

lemma setAnnotation_update:
  "Value a = Some v \<Longrightarrow> filter (\<lambda>r. Key r = Key a \<and> MailboxID r = mbID) tx = [oa] \<Longrightarrow>
   setAnnotation mbID mailboxName a (tx, changes) =
     Inr (map (\<lambda>r. if Key r = Key a \<and> MailboxID r = mbID then oa\<lparr>Value := Some v\<rparr> else r) tx,
          changes @
            (if IsString oa \<noteq> IsString a \<or> Value oa = None \<or> bytes_of (Value oa) \<noteq> v
             then [Change (a\<lparr>MailboxID := mbID\<rparr>) mailboxName] else []))"
  by (simp add: setAnnotation_def Let_def bytes_Equal_def bytes_of_def)







text \<open>
  C10. When a value is set for an entry name that has a row, the row is replaced by
  the row read with only its \<open>Value\<close> changed: mailbox, entry name and text flag of the
  stored row stay those of the old row, and every other row is unchanged. So when the
  request's text flag differs from the stored one, a change record is emitted and the
  stored flag is still the old one.
\<close>

theorem setAnnotation_update_value_only:
  assumes "uniqueKeys tx"
    and "find (\<lambda>r. Key r = Key a \<and> MailboxID r = mbID) tx = Some oa"
    and "Value a = Some v"
  shows "setAnnotation mbID mailboxName a (tx, changes) =
     Inr (map (\<lambda>r. if r = oa then oa\<lparr>Value := Some v\<rparr> else r) tx,
          changes @
            (if IsString oa \<noteq> IsString a \<or> Value oa = None \<or> bytes_of (Value oa) \<noteq> v
             then [Change (a\<lparr>MailboxID := mbID\<rparr>) mailboxName] else [])) \<and>
     find (\<lambda>r. Key r = Key a \<and> MailboxID r = mbID)
          (map (\<lambda>r. if r = oa then oa\<lparr>Value := Some v\<rparr> else r) tx) =
       Some \<lparr>MailboxID = MailboxID oa, Key = Key oa, IsString = IsString oa, Value = Some v\<rparr>"
proof -
  have e: "filter (\<lambda>r. Key r = Key a \<and> MailboxID r = mbID) tx = [oa]"
    using filter_unique [OF assms(1), of "Key a" mbID] assms(2) by simp
  have only: "(Key r = Key a \<and> MailboxID r = mbID) = (r = oa)" if "r \<in> set tx" for r
  proof
    assume "Key r = Key a \<and> MailboxID r = mbID"
    then have "r \<in> set (filter (\<lambda>r. Key r = Key a \<and> MailboxID r = mbID) tx)"
      using that by simp
    then show "r = oa" unfolding e by simp
  next
    assume "r = oa"
    then show "Key r = Key a \<and> MailboxID r = mbID"
      using find_Some_props [OF assms(2)] by simp
  qed
  have m: "map (\<lambda>r. if Key r = Key a \<and> MailboxID r = mbID then oa\<lparr>Value := Some v\<rparr> else r) tx =
        map (\<lambda>r. if r = oa then oa\<lparr>Value := Some v\<rparr> else r) tx"
    by (rule map_cong) (simp_all add: only)
  have q: "Key oa = Key a \<and> MailboxID oa = mbID"
    using find_Some_props [OF assms(2)] by simp
  have fnd: "find (\<lambda>r. Key r = Key a \<and> MailboxID r = mbID)
          (map (\<lambda>r. if r = oa then oa\<lparr>Value := Some v\<rparr> else r) xs) =
       Some (oa\<lparr>Value := Some v\<rparr>)"
    if "find (\<lambda>r. Key r = Key a \<and> MailboxID r = mbID) xs = Some oa" for xs
    using that q by (induction xs) (auto split: if_splits)
  have r: "oa\<lparr>Value := Some v\<rparr> =
     \<lparr>MailboxID = MailboxID oa, Key = Key oa, IsString = IsString oa, Value = Some v\<rparr>"
    by (cases oa) simp
  have c1: "setAnnotation mbID mailboxName a (tx, changes) =
     Inr (map (\<lambda>r. if r = oa then oa\<lparr>Value := Some v\<rparr> else r) tx,
          changes @
            (if IsString oa \<noteq> IsString a \<or> Value oa = None \<or> bytes_of (Value oa) \<noteq> v
             then [Change (a\<lparr>MailboxID := mbID\<rparr>) mailboxName] else []))"
    by (simp only: setAnnotation_update [OF assms(3) e] m)
  have c2: "find (\<lambda>r. Key r = Key a \<and> MailboxID r = mbID)
          (map (\<lambda>r. if r = oa then oa\<lparr>Value := Some v\<rparr> else r) tx) =
       Some \<lparr>MailboxID = MailboxID oa, Key = Key oa, IsString = IsString oa, Value = Some v\<rparr>"
    using fnd [OF assms(2)] unfolding r .
  show ?thesis
    by (intro conjI c1 c2)
qed

theorem setAnnotation_update_value_only_witness:
  "setAnnotation 0 []
     \<lparr>MailboxID = 0, Key = ''/private/comment'', IsString = False, Value = Some ''text''\<rparr>
     ([\<lparr>MailboxID = 0, Key = ''/private/comment'', IsString = True, Value = Some ''text''\<rparr>], []) =
   Inr ([\<lparr>MailboxID = 0, Key = ''/private/comment'', IsString = True, Value = Some ''text''\<rparr>],
        [ChangeAnnotation 0 [] ''/private/comment''])"
proof -
  have u: "uniqueKeys
    [\<lparr>MailboxID = 0, Key = ''/private/comment'', IsString = True, Value = Some ''text''\<rparr>]"
    by (simp add: uniqueKeys_def)
  have f: "find (\<lambda>r. Key r = Key \<lparr>MailboxID = 0, Key = ''/private/comment'', IsString = False, Value = Some ''text''\<rparr> \<and> MailboxID r = 0)
      [\<lparr>MailboxID = 0, Key = ''/private/comment'', IsString = True, Value = Some ''text''\<rparr>] =
    Some \<lparr>MailboxID = 0, Key = ''/private/comment'', IsString = True, Value = Some ''text''\<rparr>"
    by simp
  have v: "Value \<lparr>MailboxID = 0, Key = ''/private/comment'', IsString = False, Value = Some ''text''\<rparr> = Some ''text''"
    by simp
  show ?thesis
    using setAnnotation_update_value_only [OF u f v, of "[]" "[]", THEN conjunct1]
    by (simp add: Change_def)
qed

section \<open>SETMETADATA: the quota scan\<close>

lemma annotationSize_nonneg: "0 \<le> annotationSize a"
  by (simp add: annotationSize_def)

lemma sizes_nonneg: "0 \<le> sum_list (map annotationSize rows)"
  by (induction rows) (simp_all add: annotationSize_nonneg)

lemma quotaRow_step:
  "quotaRow maxKeys maxSize a (n, sz) =
     (if maxKeys < n + 1 then
        Inl (UserCodeError ''METADATA TOOMANY''
               ''too many metadata entries, 1000 allowed in total'')
      else if maxSize < sz + annotationSize a then
        Inl (UserCodeError (''METADATA MAXSIZE '' @ Itoa maxSize)
               ''metadata entry values too large, total maximum size is 1MB'')
      else Inr (n + 1, sz + annotationSize a))"
  by (simp add: quotaRow_def Let_def)

lemma ForEach_quotaRow:
  assumes "sz \<le> maxSize"
  shows "ForEach rows (quotaRow maxKeys maxSize) (n, sz) =
     (if maxSize < sz + sum_list (map annotationSize (take (nat (maxKeys - n)) rows)) then
        Inl (UserCodeError (''METADATA MAXSIZE '' @ Itoa maxSize)
               ''metadata entry values too large, total maximum size is 1MB'')
      else if nat (maxKeys - n) < length rows then
        Inl (UserCodeError ''METADATA TOOMANY''
               ''too many metadata entries, 1000 allowed in total'')
      else Inr (n + int (length rows), sz + sum_list (map annotationSize rows)))"
  using assms
proof (induction rows arbitrary: n sz)
  case Nil
  then show ?case by simp
next
  case (Cons a rows)
  show ?case
  proof (cases "maxKeys < n + 1")
    case True
    then have "nat (maxKeys - n) = 0" by simp
    then show ?thesis using True Cons.prems by (simp add: quotaRow_step)
  next
    case False
    then have k: "nat (maxKeys - n) = Suc (nat (maxKeys - (n + 1)))" by simp
    show ?thesis
    proof (cases "maxSize < sz + annotationSize a")
      case True
      have "0 \<le> sum_list (map annotationSize (take (nat (maxKeys - (n + 1))) rows))"
        by (rule sizes_nonneg)
      then show ?thesis using True False by (simp add: quotaRow_step k)
    next
      case ok: False
      then have le: "sz + annotationSize a \<le> maxSize" by simp
      show ?thesis
        using False ok by (simp add: quotaRow_step k Cons.IH [OF le] add.assoc)
    qed
  qed
qed


lemma quota_scan:
  assumes "0 \<le> maxSize"
  shows "ForEach rows (quotaRow maxKeys maxSize) (0, 0) =
     (if maxSize < sum_list (map annotationSize (take (nat maxKeys) rows)) then
        Inl (UserCodeError (''METADATA MAXSIZE '' @ Itoa maxSize)
               ''metadata entry values too large, total maximum size is 1MB'')
      else if nat maxKeys < length rows then
        Inl (UserCodeError ''METADATA TOOMANY''
               ''too many metadata entries, 1000 allowed in total'')
      else Inr (int (length rows), sum_list (map annotationSize rows)))"
  using ForEach_quotaRow [OF assms, of rows maxKeys 0] by simp

lemma setmetadataTx_scan:
  assumes "0 \<le> maxSize"
    and "scopeID xmailbox mailboxName = Inr mbID"
    and "ForEach l (setAnnotation mbID mailboxName) (tx, []) = Inr (tx', changes)"
  shows "setmetadataTx xmailbox maxKeys maxSize mailboxName l tx =
     (if maxSize < sum_list (map annotationSize (take (nat maxKeys) tx')) then
        Inl (UserCodeError (''METADATA MAXSIZE '' @ Itoa maxSize)
               ''metadata entry values too large, total maximum size is 1MB'')
      else if nat maxKeys < length tx' then
        Inl (UserCodeError ''METADATA TOOMANY''
               ''too many metadata entries, 1000 allowed in total'')
      else Inr (tx', changes))"
  by (simp add: setmetadataTx_def assms(2,3) quota_scan [OF assms(1)])

text \<open>
  C3. After the mutations of a SETMETADATA the scan runs over every row of the table
  \<open>tx'\<close> the mutations left, whatever mailbox a row belongs to, counting the rows in
  \<open>n\<close> and adding up \<open>len(Key) + len(Value)\<close>. On each row the count is checked
  first: the row fails with \<open>METADATA TOOMANY\<close> when the count exceeds \<open>maxKeys\<close>,
  else with \<open>METADATA MAXSIZE\<close> and the limit when the size exceeds \<open>maxSize\<close>.
  Over the whole scan this means: the size error is raised iff the rows that the count
  still admits (the first \<open>maxKeys\<close> ones) exceed the size limit, otherwise the count
  error iff there are more than \<open>maxKeys\<close> rows, otherwise the transaction succeeds.
  The limits are initially 1000 and 1000000.
\<close>

theorem setmetadataTx_quota:
  assumes "0 \<le> maxSize"
    and "scopeID xmailbox mailboxName = Inr mbID"
    and "ForEach l (setAnnotation mbID mailboxName) (tx, []) = Inr (tx', changes)"
  shows "setmetadataTx xmailbox maxKeys maxSize mailboxName l tx =
     (if maxSize < sum_list (map annotationSize (take (nat maxKeys) tx')) then
        Inl (UserCodeError (''METADATA MAXSIZE '' @ Itoa maxSize)
               ''metadata entry values too large, total maximum size is 1MB'')
      else if nat maxKeys < length tx' then
        Inl (UserCodeError ''METADATA TOOMANY''
               ''too many metadata entries, 1000 allowed in total'')
      else Inr (tx', changes)) \<and>
   quotaRow maxKeys maxSize a (n, sz) =
     (if maxKeys < n + 1 then
        Inl (UserCodeError ''METADATA TOOMANY''
               ''too many metadata entries, 1000 allowed in total'')
      else if maxSize < sz + (int (length (Key a)) + int (len_bytes (Value a))) then
        Inl (UserCodeError (''METADATA MAXSIZE '' @ Itoa maxSize)
               ''metadata entry values too large, total maximum size is 1MB'')
      else Inr (n + 1, sz + (int (length (Key a)) + int (len_bytes (Value a))))) \<and>
   metadataMaxKeys = 1000 \<and> metadataMaxSize = 1000000 \<and>
   ''METADATA MAXSIZE '' @ Itoa metadataMaxSize = ''METADATA MAXSIZE 1000000''"
proof -
  have "Itoa metadataMaxSize = ''1000000''"
    by (simp add: metadataMaxSize_def Itoa_def Itoa_nat.simps)
  then show ?thesis
    using setmetadataTx_scan [OF assms, of maxKeys] quotaRow_step [of maxKeys maxSize a n sz]
    by (simp add: annotationSize_def metadataMaxKeys_def metadataMaxSize_def)
qed

theorem setmetadataTx_quota_witness:
  "setmetadataTx (\<lambda>n. Inr 7) 2 1000 []
     [\<lparr>MailboxID = 0, Key = ''/private/z'', IsString = True, Value = Some ''v''\<rparr>]
     [\<lparr>MailboxID = 7, Key = ''/private/x'', IsString = True, Value = Some ''1''\<rparr>,
      \<lparr>MailboxID = 0, Key = ''/private/y'', IsString = True, Value = Some ''2''\<rparr>] =
     Inl (UserCodeError ''METADATA TOOMANY''
            ''too many metadata entries, 1000 allowed in total'') \<and>
   setmetadataTx (\<lambda>n. Inr 7) 1 5 []
     [\<lparr>MailboxID = 0, Key = ''/private/a'', IsString = True, Value = Some ''0123456789''\<rparr>,
      \<lparr>MailboxID = 0, Key = ''/private/b'', IsString = True, Value = Some ''1''\<rparr>] [] =
     Inl (UserCodeError ''METADATA MAXSIZE 5''
            ''metadata entry values too large, total maximum size is 1MB'')"
proof -
  have s: "scopeID (\<lambda>n. Inr 7) [] = Inr 0" by (simp add: scopeID_def)
  have m1: "ForEach [\<lparr>MailboxID = 0, Key = ''/private/z'', IsString = True, Value = Some ''v''\<rparr>]
       (setAnnotation 0 [])
       ([\<lparr>MailboxID = 7, Key = ''/private/x'', IsString = True, Value = Some ''1''\<rparr>,
         \<lparr>MailboxID = 0, Key = ''/private/y'', IsString = True, Value = Some ''2''\<rparr>], []) =
     Inr ([\<lparr>MailboxID = 7, Key = ''/private/x'', IsString = True, Value = Some ''1''\<rparr>,
           \<lparr>MailboxID = 0, Key = ''/private/y'', IsString = True, Value = Some ''2''\<rparr>,
           \<lparr>MailboxID = 0, Key = ''/private/z'', IsString = True, Value = Some ''v''\<rparr>],
          [ChangeAnnotation 0 [] ''/private/z''])"
    by (simp add: setAnnotation_insert Change_def)
  have m2: "ForEach [\<lparr>MailboxID = 0, Key = ''/private/a'', IsString = True, Value = Some ''0123456789''\<rparr>,
        \<lparr>MailboxID = 0, Key = ''/private/b'', IsString = True, Value = Some ''1''\<rparr>]
       (setAnnotation 0 []) ([], []) =
     Inr ([\<lparr>MailboxID = 0, Key = ''/private/a'', IsString = True, Value = Some ''0123456789''\<rparr>,
           \<lparr>MailboxID = 0, Key = ''/private/b'', IsString = True, Value = Some ''1''\<rparr>],
          [ChangeAnnotation 0 [] ''/private/a'', ChangeAnnotation 0 [] ''/private/b''])"
    by (simp add: setAnnotation_insert Change_def)
  have i: "Itoa 5 = ''5''" by (simp add: Itoa_def Itoa_nat.simps)
  have a: "(0::int) \<le> 1000" and b: "(0::int) \<le> 5" by simp_all
  show ?thesis
    using setmetadataTx_quota [OF a s m1, of 2, THEN conjunct1]
      setmetadataTx_quota [OF b s m2, of 1, THEN conjunct1]
    by (simp add: annotationSize_def len_bytes_def bytes_of_def i)
qed

text \<open>
  C2. If the table left by the mutations of a SETMETADATA has more rows than
  \<open>maxKeys\<close> or more bytes than \<open>maxSize\<close>, the command fails with one of the two
  quota codes and the stored table after the command is the table before it: none of
  the inserts, updates and deletes of the command persists.
\<close>

theorem cmdSetmetadata_quota_rollback:
  assumes "0 \<le> maxKeys" and "0 \<le> maxSize"
    and "checkEntryNames l = Inr ()"
    and "scopeID xmailbox mailboxName = Inr mbID"
    and "ForEach l (setAnnotation mbID mailboxName) (db, []) = Inr (tx', changes)"
    and "maxKeys < int (length tx') \<or> maxSize < sum_list (map annotationSize tx')"
  shows "\<exists>code msg.
     cmdSetmetadata xmailbox maxKeys maxSize db tag cmd mailboxName l =
       (db, Inl (UserCodeError code msg)) \<and>
     (code = ''METADATA TOOMANY'' \<or> code = ''METADATA MAXSIZE '' @ Itoa maxSize)"
proof -
  have tx: "setmetadataTx xmailbox maxKeys maxSize mailboxName l db =
     (if maxSize < sum_list (map annotationSize (take (nat maxKeys) tx')) then
        Inl (UserCodeError (''METADATA MAXSIZE '' @ Itoa maxSize)
               ''metadata entry values too large, total maximum size is 1MB'')
      else if nat maxKeys < length tx' then
        Inl (UserCodeError ''METADATA TOOMANY''
               ''too many metadata entries, 1000 allowed in total'')
      else Inr (tx', changes))"
    by (rule setmetadataTx_scan [OF assms(2,4,5)])
  show ?thesis
  proof (cases "maxSize < sum_list (map annotationSize (take (nat maxKeys) tx'))")
    case True
    then show ?thesis
      by (simp add: cmdSetmetadata_def assms(3) xdbwrite_def tx)
  next
    case False
    have "nat maxKeys < length tx'"
    proof (rule ccontr)
      assume "\<not> nat maxKeys < length tx'"
      then have le: "length tx' \<le> nat maxKeys" by simp
      then have "take (nat maxKeys) tx' = tx'" by simp
      then have "\<not> maxSize < sum_list (map annotationSize tx')" using False by simp
      moreover have "\<not> maxKeys < int (length tx')" using le assms(1) by linarith
      ultimately show False using assms(6) by blast
    qed
    then show ?thesis
      using False by (simp add: cmdSetmetadata_def assms(3) xdbwrite_def tx)
  qed
qed

theorem cmdSetmetadata_quota_rollback_witness:
  "\<exists>code msg.
     cmdSetmetadata (\<lambda>n. Inr 7) 2 1000000 [] ''x'' ''setmetadata'' []
       [\<lparr>MailboxID = 0, Key = ''/private/a'', IsString = True, Value = Some ''1''\<rparr>,
        \<lparr>MailboxID = 0, Key = ''/private/b'', IsString = True, Value = Some ''2''\<rparr>,
        \<lparr>MailboxID = 0, Key = ''/private/c'', IsString = True, Value = Some ''3''\<rparr>] =
       ([], Inl (UserCodeError code msg)) \<and>
     (code = ''METADATA TOOMANY'' \<or> code = ''METADATA MAXSIZE '' @ Itoa 1000000)"
proof -
  have c: "checkEntryNames
       [\<lparr>MailboxID = 0, Key = ''/private/a'', IsString = True, Value = Some ''1''\<rparr>,
        \<lparr>MailboxID = 0, Key = ''/private/b'', IsString = True, Value = Some ''2''\<rparr>,
        \<lparr>MailboxID = 0, Key = ''/private/c'', IsString = True, Value = Some ''3''\<rparr>] = Inr ()"
    by (simp add: checkEntryName_def HasPrefix_def)
  have s: "scopeID (\<lambda>n. Inr 7) [] = Inr 0" by (simp add: scopeID_def)
  have m: "ForEach
       [\<lparr>MailboxID = 0, Key = ''/private/a'', IsString = True, Value = Some ''1''\<rparr>,
        \<lparr>MailboxID = 0, Key = ''/private/b'', IsString = True, Value = Some ''2''\<rparr>,
        \<lparr>MailboxID = 0, Key = ''/private/c'', IsString = True, Value = Some ''3''\<rparr>]
       (setAnnotation 0 []) ([], []) =
     Inr ([\<lparr>MailboxID = 0, Key = ''/private/a'', IsString = True, Value = Some ''1''\<rparr>,
           \<lparr>MailboxID = 0, Key = ''/private/b'', IsString = True, Value = Some ''2''\<rparr>,
           \<lparr>MailboxID = 0, Key = ''/private/c'', IsString = True, Value = Some ''3''\<rparr>],
          [ChangeAnnotation 0 [] ''/private/a'', ChangeAnnotation 0 [] ''/private/b'',
           ChangeAnnotation 0 [] ''/private/c''])"
    by (simp add: setAnnotation_insert Change_def)
  have k: "(0::int) \<le> 2" and z: "(0::int) \<le> 1000000" by simp_all
  show ?thesis
    by (rule cmdSetmetadata_quota_rollback [OF k z c s m]) simp
qed

section \<open>The option parser on written option lists\<close>

lemma takeP_iff: "takeP s p = Some p' \<longleftrightarrow> p = s @ p'"
  by (auto simp: takeP_def HasPrefix_prefix prefix_def)

lemma takeP_None_iff: "takeP s p = None \<longleftrightarrow> \<not> prefix s p"
  by (simp add: takeP_def HasPrefix_prefix)

lemma takeP_append: "takeP s (s @ t) = Some t"
  by (simp add: takeP_iff)

lemma xspace_Cons: "xspace (CHR '' '' # t) = Inr t"
  by (simp add: xspace_def xtake_def takeP_def HasPrefix_def)

lemma xspace_fails: "y \<noteq> CHR '' '' \<Longrightarrow> \<exists>msg. xspace (y # ys) = Inl (SyntaxError msg)"
  by (simp add: xspace_def xtake_def takeP_def HasPrefix_def)

lemma xspace_Nil: "\<exists>msg. xspace [] = Inl (SyntaxError msg)"
  by (simp add: xspace_def xtake_def takeP_def HasPrefix_def)

lemma keyword_prefix:
  assumes "prefix K (a @ c # t)" and "c \<notin> set K"
  shows "prefix K a"
proof -
  from assms(1) consider "prefix K a" | us where "K = a @ us" and "prefix us (c # t)"
    by (auto simp: prefix_append)
  then show ?thesis
  proof cases
    case 1
    then show ?thesis .
  next
    case 2
    show ?thesis
    proof (cases us)
      case Nil
      then show ?thesis using 2 by simp
    next
      case (Cons u us')
      then have "u = c" using 2(2) by simp
      then show ?thesis using 2(1) Cons assms(2) by simp
    qed
  qed
qed

lemma loop_error:
  "getmetadataOption m d p = Inl e \<Longrightarrow> getmetadataOptionLoop m d p = Inl e"
  by (simp add: getmetadataOptionLoop.simps [of m d p])

lemma loop_close:
  "getmetadataOption m d p = Inr (md', CHR '')'' # rest) \<Longrightarrow>
   getmetadataOptionLoop m d p = Inr (md', rest)"
  by (cases md') (simp add: getmetadataOptionLoop.simps [of m d p] takeP_def HasPrefix_def)

lemma loop_space:
  "getmetadataOption m d p = Inr ((m', d'), CHR '' '' # p'') \<Longrightarrow>
   getmetadataOptionLoop m d p = getmetadataOptionLoop m' d' p''"
  by (simp add: getmetadataOptionLoop.simps [of m d p] takeP_def HasPrefix_def xspace_Cons)

lemma loop_stuck:
  assumes "getmetadataOption m d p = Inr (md', y # ys)" and "y \<noteq> CHR '' ''" and "y \<noteq> CHR '')''"
  shows "\<exists>msg. getmetadataOptionLoop m d p = Inl (SyntaxError msg)"
proof -
  obtain msg where "xspace (y # ys) = Inl (SyntaxError msg)"
    using xspace_fails [OF assms(2)] by blast
  then show ?thesis
    using assms
    by (cases md') (simp add: getmetadataOptionLoop.simps [of m d p] takeP_def HasPrefix_def)
qed

lemma digits_append:
  "\<not> isDigit c \<Longrightarrow> digits (n @ c # t) = digits n"
  unfolding digits_def by (induction n) simp_all

lemma digits_rest:
  assumes "digits n \<noteq> n"
  shows "\<exists>y ys. drop (length (digits n)) n = y # ys \<and> y \<in> set n"
proof -
  have eq: "drop (length (digits n)) n = dropWhile isDigit n"
    unfolding digits_def by (simp add: dropWhile_eq_drop)
  have "takeWhile isDigit n @ dropWhile isDigit n = n"
    by simp
  then have "dropWhile isDigit n \<noteq> []"
    using assms unfolding digits_def by auto
  then obtain y ys where d: "dropWhile isDigit n = y # ys"
    by (cases "dropWhile isDigit n") auto
  then have "y \<in> set (dropWhile isDigit n)" by simp
  then have "y \<in> set n" by (rule set_dropWhileD)
  then show ?thesis using d eq by simp
qed

lemma digits_length: "length (digits n) \<le> length n"
  unfolding digits_def by (rule length_takeWhile_le)


lemma xnumber_written:
  assumes "\<not> isDigit c"
  shows "xnumber (n @ c # t) =
     (if digits n = [] then Inl (SyntaxError ''expected number'')
      else if 2 ^ 32 \<le> decimal (digits n) then Inl (SyntaxError ''parsing number'')
      else Inr (decimal (digits n), drop (length (digits n)) n @ c # t))"
  using digits_length [of n] by (simp add: xnumber_def Let_def digits_append [OF assms])

lemma maxsize_head:
  "getmetadataOption m d (''MAXSIZE '' @ p) =
     (case xnumber p of
        Inl e \<Rightarrow> Inl e
      | Inr (v, p3) \<Rightarrow>
          if 0 \<le> m then Inl (SyntaxError ''only a single maxsize option accepted'')
          else Inr ((v, d), p3))"
  by (simp add: getmetadataOption_def takeP_def HasPrefix_def xspace_def xtake_def)


lemma depth_head:
  "getmetadataOption m d (''DEPTH '' @ p) =
     (case xtakelist [''0'', ''1'', ''INFINITY''] p of
        Inl e \<Rightarrow> Inl e
      | Inr (s, p3) \<Rightarrow>
          if d \<noteq> [] then Inl (SyntaxError ''only single depth option accepted'')
          else Inr ((m, s), p3))"
  by (simp add: getmetadataOption_def takeP_def HasPrefix_def xspace_def xtake_def)

lemma xtakelist_result:
  "xtakelist l p = Inr (s, p') \<Longrightarrow> s \<in> set l \<and> p = s @ p'"
proof (induction l)
  case Nil
  then show ?case by simp
next
  case (Cons a l)
  show ?case
  proof (cases "takeP a p")
    case None
    then show ?thesis using Cons by simp
  next
    case (Some q)
    then have "p = a @ q" by (simp add: takeP_iff)
    then show ?thesis using Cons.prems Some by simp
  qed
qed

lemma xtakelist_error:
  "xtakelist l p = Inl e \<Longrightarrow> \<exists>msg. e = SyntaxError msg"
proof (induction l)
  case Nil
  then show ?case by auto
next
  case (Cons a l)
  then show ?case by (cases "takeP a p") simp_all
qed


lemma xtakelist_depth:
  assumes "a \<in> set [''0'', ''1'', ''INFINITY'']"
  shows "xtakelist [''0'', ''1'', ''INFINITY''] (a @ t) = Inr (a, t)"
proof -
  consider "a = ''0''" | "a = ''1''" | "a = ''INFINITY''" using assms by auto
  then show ?thesis
  proof cases
    case 1
    then show ?thesis by (simp add: takeP_def HasPrefix_def)
  next
    case 2
    then show ?thesis by (simp add: takeP_def HasPrefix_def)
  next
    case 3
    then show ?thesis by (simp add: takeP_def HasPrefix_def)
  qed
qed

lemma sep_not_digit: "c = CHR '' '' \<or> c = CHR '')'' \<Longrightarrow> \<not> isDigit c"
  by (auto simp: isDigit_def)

lemma option_accept:
  assumes acc: "acceptOpt (m, d) x = Some md'" and sep: "c = CHR '' '' \<or> c = CHR '')''"
  shows "getmetadataOption m d (optText x @ c # t) = Inr (md', c # t)"
proof (cases x)
  case (Maxsize n)
  then have n: "isNumber n" and m: "m < 0" and md: "md' = (decimal n, d)"
    using acc by (simp_all split: if_splits)
  have dn: "digits n = n" and ne: "n \<noteq> []" and small: "\<not> 2 ^ 32 \<le> decimal n"
    using n by (simp_all add: isNumber_def)
  have "getmetadataOption m d (optText x @ c # t) =
        getmetadataOption m d (''MAXSIZE '' @ (n @ c # t))"
    by (simp add: Maxsize)
  also have "\<dots> = Inr (md', c # t)"
    unfolding maxsize_head xnumber_written [OF sep_not_digit [OF sep]] dn
    using ne small m md by simp
  finally show ?thesis .
next
  case (Depth a)
  then have a: "a \<in> set [''0'', ''1'', ''INFINITY'']" and d: "d = []" and md: "md' = (m, a)"
    using acc by (simp_all split: if_splits)
  have "getmetadataOption m d (optText x @ c # t) =
        getmetadataOption m d (''DEPTH '' @ (a @ c # t))"
    by (simp add: Depth)
  also have "\<dots> = Inr (md', c # t)"
    unfolding depth_head xtakelist_depth [OF a] using d md by simp
  finally show ?thesis .
next
  case (Unknown kw)
  then show ?thesis using acc by simp
qed

lemma keyword_glued:
  assumes "takeP K (kw @ c # t) = Some p1" and "c \<notin> set K" and "kw \<noteq> K"
    and "CHR '' '' \<notin> set kw"
  shows "\<exists>msg. xspace p1 = Inl (SyntaxError msg)"
proof -
  have p: "kw @ c # t = K @ p1"
    using assms(1) by (simp add: takeP_iff)
  then have "prefix K (kw @ c # t)" by simp
  then have "prefix K kw" using assms(2) by (rule keyword_prefix)
  then obtain x where kw: "kw = K @ x" by (auto simp: prefix_def)
  then have "x \<noteq> []" using assms(3) by auto
  then obtain y ys where x: "x = y # ys" by (cases x) auto
  have "p1 = x @ c # t" using p kw by simp
  moreover have "y \<noteq> CHR '' ''" using assms(4) kw x by auto
  ultimately show ?thesis using x xspace_fails [of y] by simp
qed

lemma option_unknown:
  assumes "atom kw" and "kw \<noteq> ''MAXSIZE''" and "kw \<noteq> ''DEPTH''"
    and sep: "c = CHR '' '' \<or> c = CHR '')''"
  shows "\<exists>msg. getmetadataOption m d (kw @ c # t) = Inl (SyntaxError msg)"
proof -
  have sp: "CHR '' '' \<notin> set kw" using assms(1) by (simp add: atom_def)
  have c1: "c \<notin> set ''MAXSIZE''" and c2: "c \<notin> set ''DEPTH''" using sep by auto
  show ?thesis
  proof (cases "takeP ''MAXSIZE'' (kw @ c # t)")
    case (Some p1)
    obtain msg where "xspace p1 = Inl (SyntaxError msg)"
      using keyword_glued [OF Some c1 assms(2) sp] by blast
    then show ?thesis by (simp add: getmetadataOption_def Some)
  next
    case None
    show ?thesis
    proof (cases "takeP ''DEPTH'' (kw @ c # t)")
      case (Some p1)
      obtain msg where "xspace p1 = Inl (SyntaxError msg)"
        using keyword_glued [OF Some c2 assms(3) sp] by blast
      then show ?thesis by (simp add: getmetadataOption_def None Some)
    next
      case n: None
      then show ?thesis by (simp add: getmetadataOption_def None)
    qed
  qed
qed

lemma loop_reject_maxsize:
  assumes "atom n" and rej: "\<not> (isNumber n \<and> m < 0)" and sep: "c = CHR '' '' \<or> c = CHR '')''"
  shows "\<exists>msg. getmetadataOptionLoop m d (''MAXSIZE '' @ (n @ c # t)) = Inl (SyntaxError msg)"
proof -
  note head = maxsize_head [of m d "n @ c # t"]
  note num = xnumber_written [OF sep_not_digit [OF sep], of n t]
  show ?thesis
  proof (cases "digits n = [] \<or> 2 ^ 32 \<le> decimal (digits n) \<or> 0 \<le> m")
    case True
    then have "\<exists>msg. getmetadataOption m d (''MAXSIZE '' @ (n @ c # t)) = Inl (SyntaxError msg)"
      unfolding head num by auto
    then show ?thesis using loop_error by blast
  next
    case False
    then have nonempty: "digits n \<noteq> []" and small: "\<not> 2 ^ 32 \<le> decimal (digits n)" and m: "m < 0"
      by simp_all
    have "digits n \<noteq> n"
    proof
      assume "digits n = n"
      then have "isNumber n" using nonempty small by (simp add: isNumber_def)
      then show False using rej m by simp
    qed
    then obtain y ys where r: "drop (length (digits n)) n = y # ys" and y: "y \<in> set n"
      using digits_rest by blast
    have "getmetadataOption m d (''MAXSIZE '' @ (n @ c # t)) =
          Inr ((decimal (digits n), d), y # (ys @ c # t))"
      unfolding head num using nonempty small m r by simp
    moreover have "y \<noteq> CHR '' ''" and "y \<noteq> CHR '')''"
      using assms(1) y by (auto simp: atom_def)
    ultimately show ?thesis by (rule loop_stuck)
  qed
qed

lemma loop_reject_depth:
  assumes "atom a" and rej: "\<not> (a \<in> set [''0'', ''1'', ''INFINITY''] \<and> d = [])"
    and sep: "c = CHR '' '' \<or> c = CHR '')''"
  shows "\<exists>msg. getmetadataOptionLoop m d (''DEPTH '' @ (a @ c # t)) = Inl (SyntaxError msg)"
proof -
  note head = depth_head [of m d "a @ c # t"]
  show ?thesis
  proof (cases "xtakelist [''0'', ''1'', ''INFINITY''] (a @ c # t)")
    case (Inl e)
    then obtain msg where "e = SyntaxError msg" using xtakelist_error by blast
    then have "getmetadataOption m d (''DEPTH '' @ (a @ c # t)) = Inl (SyntaxError msg)"
      unfolding head using Inl by simp
    then show ?thesis using loop_error by blast
  next
    case (Inr sp)
    obtain s p3 where sp: "sp = (s, p3)" by (cases sp)
    have res: "xtakelist [''0'', ''1'', ''INFINITY''] (a @ c # t) = Inr (s, p3)"
      using Inr sp by simp
    have s: "s \<in> set [''0'', ''1'', ''INFINITY'']" and p: "a @ c # t = s @ p3"
      using xtakelist_result [OF res] by simp_all
    show ?thesis
    proof (cases "d = []")
      case False
      then have "getmetadataOption m d (''DEPTH '' @ (a @ c # t)) =
                 Inl (SyntaxError ''only single depth option accepted'')"
        unfolding head res by simp
      then show ?thesis using loop_error by blast
    next
      case True
      then have na: "a \<notin> set [''0'', ''1'', ''INFINITY'']" using rej by simp
      have "s = ''0'' \<or> s = ''1'' \<or> s = ''INFINITY''" using s by simp
      then have cs: "c \<notin> set s" using sep by auto
      have "prefix s (a @ c # t)" unfolding p by simp
      then have "prefix s a" using cs by (rule keyword_prefix)
      then obtain x where a: "a = s @ x" unfolding prefix_def by blast
      have "x \<noteq> []"
      proof
        assume "x = []"
        then have "a = s" using a by simp
        then show False using s na by simp
      qed
      then obtain y ys where x: "x = y # ys" by (cases x) simp_all
      have p3: "p3 = y # (ys @ c # t)" using p unfolding a x by simp
      have "getmetadataOption m d (''DEPTH '' @ (a @ c # t)) = Inr ((m, s), y # (ys @ c # t))"
        unfolding head res p3 using True by simp
      moreover have "y \<in> set a" unfolding a x by simp
      then have "y \<noteq> CHR '' ''" and "y \<noteq> CHR '')''"
        using assms(1) unfolding atom_def by blast+
      ultimately show ?thesis by (rule loop_stuck)
    qed
  qed
qed

lemma loop_reject_head:
  assumes wf: "wfOpt x" and rej: "acceptOpt (m, d) x = None"
    and sep: "c = CHR '' '' \<or> c = CHR '')''"
  shows "\<exists>msg. getmetadataOptionLoop m d (optText x @ c # t) = Inl (SyntaxError msg)"
proof (cases x)
  case (Maxsize n)
  have "optText x @ c # t = ''MAXSIZE '' @ (n @ c # t)" by (simp add: Maxsize)
  moreover have "atom n" and "\<not> (isNumber n \<and> m < 0)"
    using wf rej Maxsize by (simp_all split: if_splits)
  ultimately show ?thesis using loop_reject_maxsize [OF _ _ sep, of n m d t] by simp
next
  case (Depth a)
  have "optText x @ c # t = ''DEPTH '' @ (a @ c # t)" by (simp add: Depth)
  moreover have "atom a" and "\<not> (a \<in> set [''0'', ''1'', ''INFINITY''] \<and> d = [])"
    using wf rej Depth by (simp_all split: if_splits)
  ultimately show ?thesis using loop_reject_depth [OF _ _ sep, of a d m t] by simp
next
  case (Unknown kw)
  then have "atom kw" and "kw \<noteq> ''MAXSIZE''" and "kw \<noteq> ''DEPTH''"
    using wf by simp_all
  then obtain msg where "getmetadataOption m d (kw @ c # t) = Inl (SyntaxError msg)"
    using option_unknown [OF _ _ _ sep] by blast
  then show ?thesis using loop_error Unknown by auto
qed

lemma loop_accept:
  assumes "acceptOpts (m, d) os = Some md'" and "os \<noteq> []"
  shows "getmetadataOptionLoop m d (optsText os @ CHR '')'' # rest) = Inr (md', rest)"
  using assms
proof (induction os arbitrary: m d rule: optsText.induct)
  case 1
  then show ?case by simp
next
  case (2 x)
  then have "acceptOpt (m, d) x = Some md'"
    by (simp split: option.splits)
  then have "getmetadataOption m d (optText x @ CHR '')'' # rest) = Inr (md', CHR '')'' # rest)"
    by (rule option_accept) simp
  then show ?case by (simp add: loop_close)
next
  case (3 x y os)
  from "3.prems"(1) obtain m1 d1 where x: "acceptOpt (m, d) x = Some (m1, d1)"
    and r: "acceptOpts (m1, d1) (y # os) = Some md'"
    by (cases "acceptOpt (m, d) x") auto
  have "getmetadataOption m d (optText x @ CHR '' '' # (optsText (y # os) @ CHR '')'' # rest)) =
        Inr ((m1, d1), CHR '' '' # (optsText (y # os) @ CHR '')'' # rest))"
    using x by (rule option_accept) simp
  then have "getmetadataOptionLoop m d (optText x @ CHR '' '' # (optsText (y # os) @ CHR '')'' # rest)) =
        getmetadataOptionLoop m1 d1 (optsText (y # os) @ CHR '')'' # rest)"
    by (rule loop_space)
  also have "\<dots> = Inr (md', rest)"
    using r by (rule "3.IH") simp
  finally show ?case by simp
qed

lemma loop_reject:
  assumes "list_all wfOpt os" and "acceptOpts (m, d) os = None"
  shows "\<exists>msg. getmetadataOptionLoop m d (optsText os @ CHR '')'' # rest) = Inl (SyntaxError msg)"
  using assms
proof (induction os arbitrary: m d rule: optsText.induct)
  case 1
  then show ?case by simp
next
  case (2 x)
  then have "wfOpt x" and "acceptOpt (m, d) x = None"
    by (simp_all split: option.splits)
  then have "\<exists>msg. getmetadataOptionLoop m d (optText x @ CHR '')'' # rest) = Inl (SyntaxError msg)"
    by (rule loop_reject_head) simp
  then show ?case by simp
next
  case (3 x y os)
  have wf: "wfOpt x" and wfs: "list_all wfOpt (y # os)"
    using "3.prems"(1) by simp_all
  show ?case
  proof (cases "acceptOpt (m, d) x")
    case None
    with wf have "\<exists>msg. getmetadataOptionLoop m d
        (optText x @ CHR '' '' # (optsText (y # os) @ CHR '')'' # rest)) = Inl (SyntaxError msg)"
      by (rule loop_reject_head) simp
    then show ?thesis by simp
  next
    case (Some md1)
    obtain m1 d1 where md1: "md1 = (m1, d1)" by (cases md1)
    have r: "acceptOpts (m1, d1) (y # os) = None"
      using "3.prems"(2) Some md1 by simp
    have "getmetadataOption m d (optText x @ CHR '' '' # (optsText (y # os) @ CHR '')'' # rest)) =
          Inr ((m1, d1), CHR '' '' # (optsText (y # os) @ CHR '')'' # rest))"
      using Some [unfolded md1] by (rule option_accept) simp
    then have "getmetadataOptionLoop m d (optText x @ CHR '' '' # (optsText (y # os) @ CHR '')'' # rest)) =
          getmetadataOptionLoop m1 d1 (optsText (y # os) @ CHR '')'' # rest)"
      by (rule loop_space)
    moreover have "\<exists>msg. getmetadataOptionLoop m1 d1 (optsText (y # os) @ CHR '')'' # rest) =
          Inl (SyntaxError msg)"
      using wfs r by (rule "3.IH")
    ultimately show ?thesis by simp
  qed
qed

lemma options_open:
  "getmetadataOptions (CHR '' '' # CHR ''('' # p) =
     (case getmetadataOptionLoop (- 1) [] p of
        Inl e \<Rightarrow> Inl e
      | Inr (md, p2) \<Rightarrow> (case xspace p2 of Inl e \<Rightarrow> Inl e | Inr p3 \<Rightarrow> Inr (md, p3)))"
  by (simp add: getmetadataOptions_def xspace_Cons takeP_def HasPrefix_def)

lemma options_accept:
  assumes "acceptOpts (- 1, []) os = Some md" and "os \<noteq> []"
  shows "getmetadataOptions ('' ('' @ optsText os @ '') '' @ rest) = Inr (md, rest)"
  using loop_accept [OF assms, of "CHR '' '' # rest"]
  by (simp add: options_open xspace_Cons)

lemma options_reject:
  assumes "list_all wfOpt os" and "acceptOpts (- 1, []) os = None"
  shows "\<exists>msg. getmetadataOptions ('' ('' @ optsText os @ '')'' @ rest) = Inl (SyntaxError msg)"
proof -
  obtain msg where "getmetadataOptionLoop (- 1) [] (optsText os @ CHR '')'' # rest) = Inl (SyntaxError msg)"
    using loop_reject [OF assms] by blast
  then show ?thesis by (simp add: options_open)
qed

lemma options_empty:
  "getmetadataOptions ('' ()'' @ rest) =
     Inl (SyntaxError ''unknown option for getmetadata, expected maxsize or depth'')"
  by (simp add: options_open getmetadataOptionLoop.simps [of "- 1" "[]"] getmetadataOption_def
      takeP_def HasPrefix_def)

lemma isDigit_value: "isDigit c \<Longrightarrow> 0 \<le> of_char c - (48::int)"
  by (auto simp: isDigit_def)

lemma foldl_decimal_nonneg:
  "\<forall>c\<in>set n. isDigit c \<Longrightarrow> 0 \<le> acc \<Longrightarrow>
   0 \<le> foldl (\<lambda>n c. 10 * n + (of_char c - (48::int))) acc n"
proof (induction n arbitrary: acc)
  case Nil
  then show ?case by simp
next
  case (Cons c n)
  have "0 \<le> 10 * acc + (of_char c - (48::int))"
    using Cons.prems isDigit_value [of c] by simp
  then show ?case using Cons by simp
qed

lemma decimal_nonneg: "digits n = n \<Longrightarrow> 0 \<le> decimal n"
proof -
  assume "digits n = n"
  then have "\<forall>c\<in>set n. isDigit c"
    unfolding digits_def by (simp add: takeWhile_eq_all_conv)
  then show ?thesis
    unfolding decimal_def by (rule foldl_decimal_nonneg) simp
qed

lemma acceptOpt_state:
  assumes "acceptOpt (m, d) x = Some (m', d')"
  shows "(0 \<le> m \<longrightarrow> 0 \<le> m') \<and> (d \<noteq> [] \<longrightarrow> d' \<noteq> []) \<and>
         (isMaxsize x \<longrightarrow> 0 \<le> m') \<and> (isDepth x \<longrightarrow> d' \<noteq> [])"
proof (cases x)
  case (Maxsize n)
  then have "isNumber n" and "m < 0" and "m' = decimal n" and "d' = d"
    using assms by (simp_all split: if_splits)
  then show ?thesis using Maxsize decimal_nonneg [of n] by (simp add: isNumber_def)
next
  case (Depth a)
  then have "a \<in> set [''0'', ''1'', ''INFINITY'']" and "m' = m" and "d' = a"
    using assms by (simp_all split: if_splits)
  then show ?thesis using Depth by auto
next
  case (Unknown kw)
  then show ?thesis using assms by simp
qed

lemma accept_after_maxsize:
  "0 \<le> m \<Longrightarrow> filter isMaxsize os \<noteq> [] \<Longrightarrow> acceptOpts (m, d) os = None"
proof (induction os arbitrary: m d)
  case Nil
  then show ?case by simp
next
  case (Cons x os)
  show ?case
  proof (cases "acceptOpt (m, d) x")
    case None
    then show ?thesis by simp
  next
    case (Some md1)
    obtain m1 d1 where md1: "md1 = (m1, d1)" by (cases md1)
    have m1: "0 \<le> m1"
      using acceptOpt_state [OF Some [unfolded md1]] Cons.prems(1) by simp
    have "\<not> isMaxsize x"
      using Some Cons.prems(1) by (cases x) simp_all
    then have "filter isMaxsize os \<noteq> []" using Cons.prems(2) by simp
    then show ?thesis using Some md1 Cons.IH [OF m1] by simp
  qed
qed

lemma accept_after_depth:
  "d \<noteq> [] \<Longrightarrow> filter isDepth os \<noteq> [] \<Longrightarrow> acceptOpts (m, d) os = None"
proof (induction os arbitrary: m d)
  case Nil
  then show ?case by simp
next
  case (Cons x os)
  show ?case
  proof (cases "acceptOpt (m, d) x")
    case None
    then show ?thesis by simp
  next
    case (Some md1)
    obtain m1 d1 where md1: "md1 = (m1, d1)" by (cases md1)
    have d1: "d1 \<noteq> []"
      using acceptOpt_state [OF Some [unfolded md1]] Cons.prems(1) by simp
    have "\<not> isDepth x"
      using Some Cons.prems(1) by (cases x) simp_all
    then have "filter isDepth os \<noteq> []" using Cons.prems(2) by simp
    then show ?thesis using Some md1 Cons.IH [OF d1] by simp
  qed
qed

lemma accept_two_maxsize:
  "2 \<le> length (filter isMaxsize os) \<Longrightarrow> acceptOpts (m, d) os = None"
proof (induction os arbitrary: m d)
  case Nil
  then show ?case by simp
next
  case (Cons x os)
  show ?case
  proof (cases "acceptOpt (m, d) x")
    case None
    then show ?thesis by simp
  next
    case (Some md1)
    obtain m1 d1 where md1: "md1 = (m1, d1)" by (cases md1)
    note st = acceptOpt_state [OF Some [unfolded md1]]
    show ?thesis
    proof (cases "isMaxsize x")
      case True
      then have "0 \<le> m1" using st by simp
      moreover have "filter isMaxsize os \<noteq> []" using Cons.prems True by auto
      ultimately show ?thesis using Some md1 accept_after_maxsize by simp
    next
      case False
      then have "2 \<le> length (filter isMaxsize os)" using Cons.prems by simp
      then show ?thesis using Some md1 Cons.IH by simp
    qed
  qed
qed

lemma accept_two_depth:
  "2 \<le> length (filter isDepth os) \<Longrightarrow> acceptOpts (m, d) os = None"
proof (induction os arbitrary: m d)
  case Nil
  then show ?case by simp
next
  case (Cons x os)
  show ?case
  proof (cases "acceptOpt (m, d) x")
    case None
    then show ?thesis by simp
  next
    case (Some md1)
    obtain m1 d1 where md1: "md1 = (m1, d1)" by (cases md1)
    note st = acceptOpt_state [OF Some [unfolded md1]]
    show ?thesis
    proof (cases "isDepth x")
      case True
      then have "d1 \<noteq> []" using st by simp
      moreover have "filter isDepth os \<noteq> []" using Cons.prems True by auto
      ultimately show ?thesis using Some md1 accept_after_depth by simp
    next
      case False
      then have "2 \<le> length (filter isDepth os)" using Cons.prems by simp
      then show ?thesis using Some md1 Cons.IH by simp
    qed
  qed
qed

lemma accept_bad_member:
  "x \<in> set os \<Longrightarrow> (\<And>md. acceptOpt md x = None) \<Longrightarrow> acceptOpts md os = None"
proof (induction os arbitrary: md)
  case Nil
  then show ?case by simp
next
  case (Cons y os)
  show ?case
  proof (cases "acceptOpt md y")
    case None
    then show ?thesis by simp
  next
    case (Some md1)
    then have "y \<noteq> x" using Cons.prems(2) [of md] by auto
    then have "x \<in> set os" using Cons.prems(1) by simp
    then show ?thesis using Some Cons.IH Cons.prems(2) by simp
  qed
qed

lemma acceptOpt_bad_depth:
  "a \<notin> set [''0'', ''1'', ''INFINITY''] \<Longrightarrow> acceptOpt md (Depth a) = None"
  by (cases md) simp

lemma acceptOpt_unknown: "acceptOpt md (Unknown kw) = None"
  by (cases md) simp

lemma option_unknown_word:
  "\<not> prefix ''MAXSIZE'' p \<Longrightarrow> \<not> prefix ''DEPTH'' p \<Longrightarrow>
   getmetadataOption m d p =
     Inl (SyntaxError ''unknown option for getmetadata, expected maxsize or depth'')"
  by (simp add: getmetadataOption_def takeP_def HasPrefix_prefix)

text \<open>
  C8. In a written option list of atoms, a second \<open>MAXSIZE\<close> option, a second
  \<open>DEPTH\<close> option, a \<open>DEPTH\<close> argument other than \<open>0\<close>, \<open>1\<close> and \<open>INFINITY\<close>, and
  any word other than the two keywords each make the parser fail with a syntax
  (protocol) error, whatever else the list holds and whatever follows it. Where the
  text at an option starts with neither keyword, the error is raised at once, with
  nothing skipped.
\<close>

theorem getmetadataOptions_rejects:
  assumes "list_all wfOpt os"
    and "2 \<le> length (filter isMaxsize os) \<or> 2 \<le> length (filter isDepth os) \<or>
         (\<exists>a. Depth a \<in> set os \<and> a \<notin> set [''0'', ''1'', ''INFINITY'']) \<or>
         (\<exists>kw. Unknown kw \<in> set os)"
  shows "(\<exists>msg. getmetadataOptions ('' ('' @ optsText os @ '')'' @ rest) = Inl (SyntaxError msg)) \<and>
     (\<not> prefix ''MAXSIZE'' p \<and> \<not> prefix ''DEPTH'' p \<longrightarrow>
        getmetadataOption m d p =
          Inl (SyntaxError ''unknown option for getmetadata, expected maxsize or depth''))"
proof -
  have "acceptOpts (- 1, []) os = None"
    using assms(2)
  proof (elim disjE exE conjE)
    assume "2 \<le> length (filter isMaxsize os)"
    then show ?thesis by (rule accept_two_maxsize)
  next
    assume "2 \<le> length (filter isDepth os)"
    then show ?thesis by (rule accept_two_depth)
  next
    fix a assume "Depth a \<in> set os" and "a \<notin> set [''0'', ''1'', ''INFINITY'']"
    then show ?thesis using accept_bad_member acceptOpt_bad_depth by blast
  next
    fix kw assume "Unknown kw \<in> set os"
    then show ?thesis using accept_bad_member acceptOpt_unknown by blast
  qed
  then show ?thesis
    using options_reject [OF assms(1)] option_unknown_word by blast
qed

theorem getmetadataOptions_rejects_witness:
  "(\<exists>msg. getmetadataOptions '' (MAXSIZE 10 MAXSIZE 20) INBOX /PRIVATE/COMMENT'' =
      Inl (SyntaxError msg)) \<and>
   (\<exists>msg. getmetadataOptions '' (DEPTH 0 DEPTH 1) INBOX /PRIVATE/COMMENT'' =
      Inl (SyntaxError msg)) \<and>
   (\<exists>msg. getmetadataOptions '' (DEPTH 2) INBOX /PRIVATE/COMMENT'' =
      Inl (SyntaxError msg)) \<and>
   (\<exists>msg. getmetadataOptions '' (MAXSIZE 10 FUTURE) INBOX /PRIVATE/COMMENT'' =
      Inl (SyntaxError msg))"
proof -
  have 1: "\<exists>msg. getmetadataOptions ('' ('' @ optsText [Maxsize ''10'', Maxsize ''20''] @ '')''
      @ '' INBOX /PRIVATE/COMMENT'') = Inl (SyntaxError msg)"
    by (rule getmetadataOptions_rejects [THEN conjunct1]) (simp_all add: atom_def)
  have 2: "\<exists>msg. getmetadataOptions ('' ('' @ optsText [Depth ''0'', Depth ''1''] @ '')''
      @ '' INBOX /PRIVATE/COMMENT'') = Inl (SyntaxError msg)"
    by (rule getmetadataOptions_rejects [THEN conjunct1]) (simp_all add: atom_def)
  have 3: "\<exists>msg. getmetadataOptions ('' ('' @ optsText [Depth ''2''] @ '')''
      @ '' INBOX /PRIVATE/COMMENT'') = Inl (SyntaxError msg)"
    by (rule getmetadataOptions_rejects [THEN conjunct1]) (simp_all add: atom_def)
  have 4: "\<exists>msg. getmetadataOptions ('' ('' @ optsText [Maxsize ''10'', Unknown ''FUTURE''] @ '')''
      @ '' INBOX /PRIVATE/COMMENT'') = Inl (SyntaxError msg)"
    by (rule getmetadataOptions_rejects [THEN conjunct1]) (simp_all add: atom_def)
  show ?thesis
    using 1 2 3 4 by simp
qed

text \<open>
  C9. The claim is that an empty option list \<open>()\<close> is parsed without error. The
  loop parses an option before it looks for the closing parenthesis, so the list
  \<open>()\<close> is rejected.
\<close>

theorem getmetadataOptions_empty_list_counterexample:
  "getmetadataOptions '' () INBOX /PRIVATE/COMMENT'' =
     Inl (SyntaxError ''unknown option for getmetadata, expected maxsize or depth'')"
  using options_empty [of "'' INBOX /PRIVATE/COMMENT''"] by simp

text \<open>
  C9, as amended. The option list, when present, holds one or more options: \<open>()\<close>
  is rejected with a syntax error whatever follows it; a list of one or more options
  of the grammar (\<open>MAXSIZE\<close> with a number, \<open>DEPTH\<close> with \<open>0\<close>, \<open>1\<close> or
  \<open>INFINITY\<close>, each at most once) that is followed by a space is parsed without
  error and gives the options; and without an opening parenthesis no option is set.
\<close>

theorem getmetadataOptions_one_or_more:
  "getmetadataOptions ('' ()'' @ rest) =
     Inl (SyntaxError ''unknown option for getmetadata, expected maxsize or depth'') \<and>
   (os \<noteq> [] \<and> acceptOpts (- 1, []) os = Some md \<longrightarrow>
      getmetadataOptions ('' ('' @ optsText os @ '') '' @ rest) = Inr (md, rest)) \<and>
   (c \<noteq> CHR ''('' \<longrightarrow> getmetadataOptions (CHR '' '' # c # p) = Inr ((- 1, []), c # p))"
proof (intro conjI impI)
  show "getmetadataOptions ('' ()'' @ rest) =
     Inl (SyntaxError ''unknown option for getmetadata, expected maxsize or depth'')"
    by (rule options_empty)
next
  assume "os \<noteq> [] \<and> acceptOpts (- 1, []) os = Some md"
  then show "getmetadataOptions ('' ('' @ optsText os @ '') '' @ rest) = Inr (md, rest)"
    using options_accept by blast
next
  assume "c \<noteq> CHR ''(''"
  then show "getmetadataOptions (CHR '' '' # c # p) = Inr ((- 1, []), c # p)"
    by (simp add: getmetadataOptions_def xspace_Cons takeP_def HasPrefix_def)
qed

theorem getmetadataOptions_one_or_more_witness:
  "getmetadataOptions '' (MAXSIZE 10 DEPTH INFINITY) INBOX /PRIVATE/COMMENT'' =
     Inr ((10, ''INFINITY''), ''INBOX /PRIVATE/COMMENT'') \<and>
   getmetadataOptions '' INBOX /PRIVATE/COMMENT'' = Inr ((- 1, []), ''INBOX /PRIVATE/COMMENT'')"
proof -
  have a: "acceptOpts (- 1, []) [Maxsize ''10'', Depth ''INFINITY''] = Some (10, ''INFINITY'')"
    by (simp add: isNumber_def digits_def isDigit_def decimal_def)
  note t = getmetadataOptions_one_or_more
    [of "''INBOX /PRIVATE/COMMENT''" "[Maxsize ''10'', Depth ''INFINITY'']" "(10, ''INFINITY'')"
      "CHR ''I''" "''NBOX /PRIVATE/COMMENT''"]
  show ?thesis
    using t a by simp
qed

end
